theory Spec2Isabelle
  imports Main
begin

section \<open>Python values used by the routing and date layers\<close>

text \<open>
  Python strings are modelled as \<open>string\<close>, one \<open>char\<close> per code point, so the model
  covers the code points below 256 (ASCII and Latin-1). Python integers are \<open>int\<close>.
  Every exception is a value: \<open>ValueError\<close>, \<open>OverflowError\<close> and \<open>RuntimeError\<close>
  carry the message the source (or the standard library) raises them with;
  \<open>ArgumentError\<close> and \<open>NoSuchModuleError\<close> are the two exceptions with which the database
  toolkit refuses a URL (one it cannot parse, one that names a dialect it does not know).
\<close>

datatype error = ValueError string | OverflowError string | RuntimeError string
  | ArgumentError string | NoSuchModuleError string

text \<open>Sequencing of fallible steps: the first exception raised ends the computation.\<close>

definition ebind :: "error + 'a \<Rightarrow> ('a \<Rightarrow> error + 'b) \<Rightarrow> error + 'b" where
  "ebind r f = (case r of Inl e \<Rightarrow> Inl e | Inr v \<Rightarrow> f v)"

subsection \<open>String methods\<close>

text \<open>\<^verbatim>\<open>str.isdigit\<close> on one code point below 256: the ten decimal digits and the
  superscripts two, three and one (U+00B2, U+00B3, U+00B9).\<close>

definition ascii_digit :: "char \<Rightarrow> bool" where
  "ascii_digit c = (48 \<le> (of_char c :: nat) \<and> (of_char c :: nat) \<le> 57)"

definition char_isdigit :: "char \<Rightarrow> bool" where
  "char_isdigit c = (ascii_digit c \<or> (of_char c :: nat) \<in> {178, 179, 185})"

text \<open>\<^verbatim>\<open>s.isdigit()\<close>: false on the empty string.\<close>

definition isdigit :: "string \<Rightarrow> bool" where
  "isdigit s = (s \<noteq> [] \<and> list_all char_isdigit s)"

definition digit_val :: "char \<Rightarrow> int" where
  "digit_val c = int (of_char c :: nat) - 48"

text \<open>\<^verbatim>\<open>int(s)\<close> on a string that passed \<open>isdigit\<close>: the decimal value when every
  character is a decimal digit; the superscript digits are not decimal and raise.\<close>

definition decimal_value :: "string \<Rightarrow> int" where
  "decimal_value s = foldl (\<lambda>acc c. 10 * acc + digit_val c) 0 s"

definition py_int :: "string \<Rightarrow> error + int" where
  "py_int s =
     (if s \<noteq> [] \<and> list_all ascii_digit s
      then Inr (decimal_value s)
      else Inl (ValueError (''invalid literal for int() with base 10: ''
                             @ [CHR 0x27] @ s @ [CHR 0x27])))"

text \<open>\<^verbatim>\<open>str.lower\<close> on code points below 256: the ASCII capitals and the Latin-1 capitals
  (U+00C0 to U+00DE without the multiplication sign U+00D7) move up by 32.\<close>

definition char_lower :: "char \<Rightarrow> char" where
  "char_lower c =
     (let n = (of_char c :: nat)
      in if (65 \<le> n \<and> n \<le> 90) \<or> (192 \<le> n \<and> n \<le> 222 \<and> n \<noteq> 215)
         then char_of (n + 32) else c)"

definition lower :: "string \<Rightarrow> string" where
  "lower s = map char_lower s"

text \<open>\<^verbatim>\<open>str.upper\<close>, as far as the source compares its result: with the ASCII
  strings \<^verbatim>\<open>CKP_\<close> and \<^verbatim>\<open>_DATABASE_URL\<close>. The ASCII and Latin-1 small letters move down
  by 32. Three code points below 256 have an upper case that is not one code point below
  256 (U+00DF gives \<^verbatim>\<open>SS\<close>, U+00B5 and U+00FF leave Latin-1); none of their images
  occurs in the two compared strings, so they are left in place here.\<close>

definition char_upper :: "char \<Rightarrow> char" where
  "char_upper c =
     (let n = (of_char c :: nat)
      in if (97 \<le> n \<and> n \<le> 122) \<or> (224 \<le> n \<and> n \<le> 254 \<and> n \<noteq> 247)
         then char_of (n - 32) else c)"

definition upper :: "string \<Rightarrow> string" where
  "upper s = map char_upper s"

definition startswith :: "string \<Rightarrow> string \<Rightarrow> bool" where
  "startswith s p = (take (length p) s = p)"

definition endswith :: "string \<Rightarrow> string \<Rightarrow> bool" where
  "endswith s p = (length p \<le> length s \<and> drop (length s - length p) s = p)"

text \<open>\<^verbatim>\<open>s.replace(old, new)\<close> for a non-empty \<open>old\<close>: every occurrence, left to right,
  without overlap.\<close>

function replace :: "string \<Rightarrow> string \<Rightarrow> string \<Rightarrow> string" where
  "replace old new [] = []"
| "replace old new (c # cs) =
     (if old \<noteq> [] \<and> take (length old) (c # cs) = old
      then new @ replace old new (drop (length old) (c # cs))
      else c # replace old new cs)"
  by pat_completeness auto
termination
  by (relation "measure (\<lambda>(old, new, s). length s)") (auto simp: neq_Nil_conv)

text \<open>\<^verbatim>\<open>s.count(c)\<close> and \<^verbatim>\<open>c in s\<close> for a one-character string \<open>c\<close>.\<close>

definition count_char :: "string \<Rightarrow> char \<Rightarrow> int" where
  "count_char s c = int (length (filter (\<lambda>x. x = c) s))"

definition contains_char :: "string \<Rightarrow> char \<Rightarrow> bool" where
  "contains_char s c = (c \<in> set s)"

text \<open>\<^verbatim>\<open>str.strip\<close>: white space (\<^verbatim>\<open>str.isspace\<close>) is removed at both ends.\<close>

definition char_isspace :: "char \<Rightarrow> bool" where
  "char_isspace c =
     (let n = (of_char c :: nat)
      in (9 \<le> n \<and> n \<le> 13) \<or> (28 \<le> n \<and> n \<le> 32) \<or> n = 133 \<or> n = 160)"

definition strip :: "string \<Rightarrow> string" where
  "strip s = rev (dropWhile char_isspace (rev (dropWhile char_isspace s)))"

text \<open>An insertion-ordered \<^verbatim>\<open>dict\<close> with string keys is an association list with
  distinct keys: \<^verbatim>\<open>d[k] = v\<close> replaces the value of a present key in place and puts a new
  key last.\<close>

fun dict_set :: "(string \<times> 'v) list \<Rightarrow> string \<Rightarrow> 'v \<Rightarrow> (string \<times> 'v) list" where
  "dict_set [] k v = [(k, v)]"
| "dict_set ((k', v') # d) k v = (if k' = k then (k, v) # d else (k', v') # dict_set d k v)"

definition dict_keys :: "(string \<times> 'v) list \<Rightarrow> string list" where
  "dict_keys d = map fst d"

subsection \<open>The proleptic Gregorian calendar of \<^verbatim>\<open>datetime\<close>\<close>

definition MINYEAR :: int where "MINYEAR = 1"
definition MAXYEAR :: int where "MAXYEAR = 9999"
definition MAXORDINAL :: int where "MAXORDINAL = 3652059"

definition is_leap :: "int \<Rightarrow> bool" where
  "is_leap y = (y mod 4 = 0 \<and> (y mod 100 \<noteq> 0 \<or> y mod 400 = 0))"

text \<open>The table \<^verbatim>\<open>_DAYS_IN_MONTH\<close> (index 0 is the placeholder \<open>-1\<close>).\<close>

definition DAYS_IN_MONTH :: "int \<Rightarrow> int" where
  "DAYS_IN_MONTH m =
     (if m = 1 then 31 else if m = 2 then 28 else if m = 3 then 31 else if m = 4 then 30
      else if m = 5 then 31 else if m = 6 then 30 else if m = 7 then 31 else if m = 8 then 31
      else if m = 9 then 30 else if m = 10 then 31 else if m = 11 then 30 else if m = 12 then 31
      else -1)"

text \<open>The table \<^verbatim>\<open>_DAYS_BEFORE_MONTH\<close>: days of a common year before month \<open>m\<close>.\<close>

definition DAYS_BEFORE_MONTH :: "int \<Rightarrow> int" where
  "DAYS_BEFORE_MONTH m =
     (if m = 1 then 0 else if m = 2 then 31 else if m = 3 then 59 else if m = 4 then 90
      else if m = 5 then 120 else if m = 6 then 151 else if m = 7 then 181 else if m = 8 then 212
      else if m = 9 then 243 else if m = 10 then 273 else if m = 11 then 304 else if m = 12 then 334
      else -1)"

definition days_in_month :: "int \<Rightarrow> int \<Rightarrow> int" where
  "days_in_month y m = (if m = 2 \<and> is_leap y then 29 else DAYS_IN_MONTH m)"

definition days_before_year :: "int \<Rightarrow> int" where
  "days_before_year y = (let p = y - 1 in p * 365 + p div 4 - p div 100 + p div 400)"

definition days_before_month :: "int \<Rightarrow> int \<Rightarrow> int" where
  "days_before_month y m = DAYS_BEFORE_MONTH m + (if m > 2 \<and> is_leap y then 1 else 0)"

text \<open>\<^verbatim>\<open>date.toordinal\<close>: 0001-01-01 is day 1.\<close>

definition ymd2ord :: "int \<Rightarrow> int \<Rightarrow> int \<Rightarrow> int" where
  "ymd2ord y m d = days_before_year y + days_before_month y m + d"

text \<open>\<^verbatim>\<open>date.fromordinal\<close>, the standard library's inverse of \<open>ymd2ord\<close>. It splits the
  day number into 400-, 100-, 4- and 1-year cycles; the month of the remaining zero-based
  day of the year \<open>n\<close> is estimated as \<open>(n + 50) >> 5\<close> and corrected when the estimate
  is one too high. (For ordinals in 1..\<open>MAXORDINAL\<close> the tables are only read at the
  indices 1 to 12.)\<close>

definition month_of_yday :: "bool \<Rightarrow> int \<Rightarrow> int \<times> int" where
  "month_of_yday leapyear n =
     (let m = (n + 50) div 32;
          preceding = DAYS_BEFORE_MONTH m + (if m > 2 \<and> leapyear then 1 else 0)
      in if preceding > n
         then (m - 1,
               n - (preceding - (DAYS_IN_MONTH (m - 1)
                                 + (if m - 1 = 2 \<and> leapyear then 1 else 0))) + 1)
         else (m, n - preceding + 1))"

definition ord2ymd :: "int \<Rightarrow> int \<times> int \<times> int" where
  "ord2ymd n0 =
     (let n = n0 - 1;
          n400 = n div 146097; n = n mod 146097;
          n100 = n div 36524; n = n mod 36524;
          n4 = n div 1461; n = n mod 1461;
          n1 = n div 365; n = n mod 365;
          y = n400 * 400 + 1 + n100 * 100 + n4 * 4 + n1
      in if n1 = 4 \<or> n100 = 4 then (y - 1, 12, 31)
         else
           let leapyear = (n1 = 3 \<and> (n4 \<noteq> 24 \<or> n100 = 3))
           in case month_of_yday leapyear n of (m, d) \<Rightarrow> (y, m, d))"

subsection \<open>\<^verbatim>\<open>datetime\<close> objects\<close>

text \<open>A time zone object (\<^verbatim>\<open>ZoneInfo\<close> or a fixed offset of an ISO-8601 string,
  in seconds).\<close>

datatype tz = ZoneInfo string | UtcOffset int

record datetime =
  year :: int
  month :: int
  day :: int
  hour :: int
  minute :: int
  second :: int
  microsecond :: int
  tzinfo :: "tz option"

text \<open>The invariant of every \<^verbatim>\<open>datetime\<close> object the library hands out.\<close>

definition valid_date :: "int \<Rightarrow> int \<Rightarrow> int \<Rightarrow> bool" where
  "valid_date y m d =
     (MINYEAR \<le> y \<and> y \<le> MAXYEAR \<and> 1 \<le> m \<and> m \<le> 12 \<and> 1 \<le> d \<and> d \<le> days_in_month y m)"

definition valid_datetime :: "datetime \<Rightarrow> bool" where
  "valid_datetime t =
     (valid_date (year t) (month t) (day t) \<and> 0 \<le> hour t \<and> hour t < 24
      \<and> 0 \<le> minute t \<and> minute t < 60 \<and> 0 \<le> second t \<and> second t < 60
      \<and> 0 \<le> microsecond t \<and> microsecond t < 1000000)"

text \<open>The constructor \<^verbatim>\<open>datetime(year, month, day, tzinfo=tz)\<close>, with its range checks
  in the library's order. The time of day defaults to midnight. The wording of the
  library's messages differs between Python versions; the messages here name the check
  that failed.\<close>

definition mk_datetime :: "int \<Rightarrow> int \<Rightarrow> int \<Rightarrow> tz option \<Rightarrow> error + datetime" where
  "mk_datetime y m d z =
     (if \<not> (MINYEAR \<le> y \<and> y \<le> MAXYEAR) then Inl (ValueError ''year is out of range'')
      else if \<not> (1 \<le> m \<and> m \<le> 12) then Inl (ValueError ''month must be in 1..12'')
      else if \<not> (1 \<le> d \<and> d \<le> days_in_month y m)
        then Inl (ValueError ''day is out of range for month'')
      else Inr \<lparr>year = y, month = m, day = d, hour = 0, minute = 0, second = 0,
                microsecond = 0, tzinfo = z\<rparr>)"

text \<open>\<^verbatim>\<open>t + timedelta(days=k)\<close>: the date moves by \<open>k\<close> through its ordinal, the time of
  day and the zone stay; leaving the range 1..\<open>MAXORDINAL\<close> raises \<^verbatim>\<open>OverflowError\<close>.\<close>

definition add_days :: "datetime \<Rightarrow> int \<Rightarrow> error + datetime" where
  "add_days t k =
     (let n = ymd2ord (year t) (month t) (day t) + k
      in if 0 < n \<and> n \<le> MAXORDINAL
         then (case ord2ymd n of (y, m, d) \<Rightarrow> Inr (t\<lparr>year := y, month := m, day := d\<rparr>))
         else Inl (OverflowError ''date value out of range''))"

text \<open>The comparison \<^verbatim>\<open>a < b\<close> of two naive datetimes, or of two aware datetimes that
  share one \<^verbatim>\<open>tzinfo\<close> object: the wall-clock fields, lexicographically.\<close>

fun key_less :: "int list \<Rightarrow> int list \<Rightarrow> bool" where
  "key_less (a # as) (b # bs) = (a < b \<or> (a = b \<and> key_less as bs))"
| "key_less _ _ = False"

definition dt_fields :: "datetime \<Rightarrow> int list" where
  "dt_fields t = [year t, month t, day t, hour t, minute t, second t, microsecond t]"

definition dt_less :: "datetime \<Rightarrow> datetime \<Rightarrow> bool" where
  "dt_less a b = key_less (dt_fields a) (dt_fields b)"

section \<open>The date-key resolver of the HMI data services\<close>

text \<open>\<^verbatim>\<open>_resolve_date_key\<close> of \<^verbatim>\<open>app/services/banb_data.py\<close>; the copy in
  \<^verbatim>\<open>app/services/rtf_data.py\<close> is the same text.\<close>

definition INVALID_DATE_KEY :: string where
  "INVALID_DATE_KEY = ''date_key must be numeric in formats YYYY, YYYYMM, or YYYYMMDD''"

definition resolve_date_key :: "string \<Rightarrow> error + (datetime \<times> datetime)" where
  "resolve_date_key date_key =
     (if length date_key \<notin> {4, 6, 8} \<or> \<not> isdigit date_key
      then Inl (ValueError INVALID_DATE_KEY)
      else
        ebind (py_int (take 4 date_key)) (\<lambda>y.
        if length date_key = 4 then
          ebind (mk_datetime y 1 1 None) (\<lambda>start.
          ebind (mk_datetime (y + 1) 1 1 None) (\<lambda>end.
          Inr (start, end)))
        else if length date_key = 6 then
          ebind (py_int (take 2 (drop 4 date_key))) (\<lambda>m.
          ebind (mk_datetime y m 1 None) (\<lambda>start.
          if m = 12
          then ebind (mk_datetime (y + 1) 1 1 None) (\<lambda>end. Inr (start, end))
          else ebind (mk_datetime y (m + 1) 1 None) (\<lambda>end. Inr (start, end))))
        else
          ebind (py_int (take 2 (drop 4 date_key))) (\<lambda>m.
          ebind (py_int (take 2 (drop 6 date_key))) (\<lambda>d.
          ebind (mk_datetime y m d None) (\<lambda>start.
          ebind (add_days start 1) (\<lambda>end.
          Inr (start, end)))))))"

text \<open>The truth value of an \<^verbatim>\<open>Optional[str]\<close>: \<^verbatim>\<open>None\<close> and the empty string are false.\<close>

definition truthy :: "string option \<Rightarrow> bool" where
  "truthy k = (case k of None \<Rightarrow> False | Some s \<Rightarrow> s \<noteq> [])"

definition INVALID_RANGE :: string where
  "INVALID_RANGE = ''start_key must represent a period earlier than end_key''"

text \<open>The bounds that \<^verbatim>\<open>fetch_banb_data_by_pid_and_range\<close> and
  \<^verbatim>\<open>fetch_rtf_data_by_pid_and_range\<close> compute from their two optional keys before they
  query (lines 30 to 44 of both files): \<open>start_dt\<close> and \<open>end_dt\<close>, or the exception.\<close>

definition range_bounds ::
  "string option \<Rightarrow> string option \<Rightarrow> error + (datetime option \<times> datetime option)" where
  "range_bounds start_key end_key =
     ebind (case start_key of
              Some k \<Rightarrow>
                if k \<noteq> [] then
                  ebind (resolve_date_key k) (\<lambda>(start_dt, start_dt_end).
                  Inr (Some start_dt, if \<not> truthy end_key then Some start_dt_end else None))
                else Inr (None, None)
            | None \<Rightarrow> Inr (None, None)) (\<lambda>(start_dt, end_dt).
     ebind (case end_key of
              Some k \<Rightarrow>
                if k \<noteq> [] then
                  ebind (resolve_date_key k) (\<lambda>(end_start, end_dt_candidate).
                  Inr (if \<not> truthy start_key then Some end_start else start_dt,
                       Some end_dt_candidate))
                else Inr (start_dt, end_dt)
            | None \<Rightarrow> Inr (start_dt, end_dt)) (\<lambda>(start_dt, end_dt).
     case (start_dt, end_dt) of
       (Some a, Some b) \<Rightarrow>
         if \<not> dt_less a b then Inl (ValueError INVALID_RANGE) else Inr (start_dt, end_dt)
     | _ \<Rightarrow> Inr (start_dt, end_dt)))"

text \<open>The two service functions hand the bounds to their query (\<^verbatim>\<open>_fetch_banb_data\<close>,
  \<^verbatim>\<open>_fetch_rtf_data\<close>), which is a parameter here.\<close>

definition fetch_banb_data_by_pid_and_range ::
  "(int \<Rightarrow> int \<Rightarrow> string option \<Rightarrow> datetime option \<Rightarrow> datetime option \<Rightarrow> error + 'r)
   \<Rightarrow> int \<Rightarrow> int \<Rightarrow> string option \<Rightarrow> string option \<Rightarrow> string option \<Rightarrow> error + 'r" where
  "fetch_banb_data_by_pid_and_range fetch_banb_data pid limit start_key end_key db_alias =
     ebind (range_bounds start_key end_key) (\<lambda>(start_dt, end_dt).
     fetch_banb_data pid limit db_alias start_dt end_dt)"

definition fetch_rtf_data_by_pid_and_range ::
  "(int \<Rightarrow> int \<Rightarrow> string option \<Rightarrow> datetime option \<Rightarrow> datetime option \<Rightarrow> error + 'r)
   \<Rightarrow> int \<Rightarrow> int \<Rightarrow> string option \<Rightarrow> string option \<Rightarrow> string option \<Rightarrow> error + 'r" where
  "fetch_rtf_data_by_pid_and_range fetch_rtf_data pid limit start_key end_key db_alias =
     ebind (range_bounds start_key end_key) (\<lambda>(start_dt, end_dt).
     fetch_rtf_data pid limit db_alias start_dt end_dt)"

section \<open>The timestamp parser of the anomaly service\<close>

text \<open>\<^verbatim>\<open>app/services/banbury_anomaly_detection.py\<close>. The two parsers of the standard
  library, \<^verbatim>\<open>datetime.fromisoformat\<close> and \<^verbatim>\<open>datetime.strptime\<close>, are parameters:
  what they accept differs between Python versions, and no property below depends on it.\<close>

record library =
  fromisoformat :: "string \<Rightarrow> error + datetime"
  strptime :: "string \<Rightarrow> string \<Rightarrow> error + datetime"

definition DEFAULT_TZ :: tz where
  "DEFAULT_TZ = ZoneInfo ''Asia/Seoul''"

text \<open>\<^verbatim>\<open>try: return r  except ValueError: pass\<close>, followed by \<open>k\<close>: only a
  \<^verbatim>\<open>ValueError\<close> is swallowed.\<close>

definition except_ValueError :: "error + 'a \<Rightarrow> error + 'a \<Rightarrow> error + 'a" where
  "except_ValueError r k =
     (case r of Inr v \<Rightarrow> Inr v | Inl (ValueError msg) \<Rightarrow> k | Inl e \<Rightarrow> Inl e)"

text \<open>\<^verbatim>\<open>if cond: try: return r  except ValueError: pass\<close>, followed by \<open>k\<close>.\<close>

definition attempt :: "bool \<Rightarrow> error + 'a \<Rightarrow> error + 'a \<Rightarrow> error + 'a" where
  "attempt cond r k = (if cond then except_ValueError r k else k)"

definition in_default_tz :: "datetime \<Rightarrow> error + datetime" where
  "in_default_tz t = Inr (t\<lparr>tzinfo := Some DEFAULT_TZ\<rparr>)"

definition INVALID_FORMAT :: string where
  "INVALID_FORMAT = ''Invalid date format. Supported formats: yyyy, yyyyMM, yyyyMMdd, yyyy-MM, YYYY-MM-DD, YYYY-MM-DD HH:MM, YYYY-MM-DD HH:MM:SS. Input value: ''"

definition parse_cycle_start_date :: "library \<Rightarrow> string \<Rightarrow> error + datetime" where
  "parse_cycle_start_date lib date_str0 =
     (let date_str = strip date_str0 in
      except_ValueError
        (ebind (fromisoformat lib (replace ''Z'' ''+00:00'' date_str)) (\<lambda>iso_dt.
         Inr (if tzinfo iso_dt = None then iso_dt\<lparr>tzinfo := Some DEFAULT_TZ\<rparr> else iso_dt)))
     (attempt (length date_str = 19 \<and> contains_char date_str CHR '' ''
               \<and> contains_char date_str CHR '':'')
        (ebind (strptime lib date_str ''%Y%m%d %H:%M:%S'') in_default_tz)
     (attempt (length date_str = 16 \<and> contains_char date_str CHR '' ''
               \<and> contains_char date_str CHR '':''
               \<and> \<not> contains_char (take 10 date_str) CHR ''-'')
        (ebind (strptime lib date_str ''%Y%m%d %H:%M'') in_default_tz)
     (attempt (length date_str = 19 \<and> contains_char date_str CHR '' ''
               \<and> count_char date_str CHR ''-'' = 2 \<and> count_char date_str CHR '':'' = 2)
        (ebind (strptime lib date_str ''%Y-%m-%d %H:%M:%S'') in_default_tz)
     (attempt (length date_str = 16 \<and> contains_char date_str CHR '' ''
               \<and> count_char date_str CHR ''-'' = 2 \<and> count_char date_str CHR '':'' = 1)
        (ebind (strptime lib date_str ''%Y-%m-%d %H:%M'') in_default_tz)
     (attempt (length date_str = 10 \<and> count_char date_str CHR ''-'' = 2)
        (ebind (strptime lib date_str ''%Y-%m-%d'') in_default_tz)
     (attempt (length date_str = 8 \<and> isdigit date_str)
        (ebind (strptime lib date_str ''%Y%m%d'') in_default_tz)
     (attempt (length date_str = 7 \<and> count_char date_str CHR ''-'' = 1)
        (ebind (strptime lib date_str ''%Y-%m'') (\<lambda>parsed.
         mk_datetime (year parsed) (month parsed) 1 (Some DEFAULT_TZ)))
     (attempt (length date_str = 6 \<and> isdigit date_str)
        (ebind (strptime lib date_str ''%Y%m'') (\<lambda>parsed.
         mk_datetime (year parsed) (month parsed) 1 (Some DEFAULT_TZ)))
     (attempt (length date_str = 4 \<and> isdigit date_str)
        (ebind (py_int date_str) (\<lambda>y. mk_datetime y 1 1 (Some DEFAULT_TZ)))
     (Inl (ValueError (INVALID_FORMAT @ date_str)))))))))))))"

text \<open>\<^verbatim>\<open>t.tzinfo or DEFAULT_TZ\<close>.\<close>

definition tzinfo_or_default :: "datetime \<Rightarrow> tz option" where
  "tzinfo_or_default t = (case tzinfo t of None \<Rightarrow> Some DEFAULT_TZ | Some z \<Rightarrow> Some z)"

definition resolve_cycle_start_range ::
  "library \<Rightarrow> string option \<Rightarrow> string option
   \<Rightarrow> error + (datetime option \<times> datetime option)" where
  "resolve_cycle_start_range lib start_key end_key =
     ebind (case start_key of
              None \<Rightarrow> Inr None
            | Some k \<Rightarrow>
                if k = [] then Inr None
                else
                  ebind (parse_cycle_start_date lib k) (\<lambda>start_dt.
                  let start_key_stripped = strip k in
                  if length start_key_stripped = 4 then
                    map_sum id Some (mk_datetime (year start_dt) 1 1 (tzinfo_or_default start_dt))
                  else if length start_key_stripped = 6 \<and> isdigit start_key_stripped then
                    map_sum id Some
                      (mk_datetime (year start_dt) (month start_dt) 1 (tzinfo_or_default start_dt))
                  else if length start_key_stripped = 7
                          \<and> contains_char start_key_stripped CHR ''-'' then
                    map_sum id Some
                      (mk_datetime (year start_dt) (month start_dt) 1 (tzinfo_or_default start_dt))
                  else if length start_key_stripped = 8 \<and> isdigit start_key_stripped then
                    map_sum id Some
                      (mk_datetime (year start_dt) (month start_dt) (day start_dt)
                         (tzinfo_or_default start_dt))
                  else if length start_key_stripped = 10
                          \<and> count_char start_key_stripped CHR ''-'' = 2 then
                    map_sum id Some
                      (mk_datetime (year start_dt) (month start_dt) (day start_dt)
                         (tzinfo_or_default start_dt))
                  else Inr (Some start_dt))) (\<lambda>start_dt.
     ebind (case end_key of
              None \<Rightarrow> Inr None
            | Some k \<Rightarrow>
                if k = [] then Inr None
                else
                  ebind (parse_cycle_start_date lib k) (\<lambda>end_dt.
                  let end_key_stripped = strip k in
                  if length end_key_stripped = 4 then
                    map_sum id Some (mk_datetime (year end_dt + 1) 1 1 (tzinfo_or_default end_dt))
                  else if (length end_key_stripped = 6 \<and> isdigit end_key_stripped)
                          \<or> (length end_key_stripped = 7
                              \<and> contains_char end_key_stripped CHR ''-'') then
                    (if month end_dt = 12
                     then map_sum id Some
                            (mk_datetime (year end_dt + 1) 1 1 (tzinfo_or_default end_dt))
                     else map_sum id Some
                            (mk_datetime (year end_dt) (month end_dt + 1) 1
                               (tzinfo_or_default end_dt)))
                  else if (length end_key_stripped = 8 \<and> isdigit end_key_stripped)
                          \<or> (length end_key_stripped = 10
                              \<and> count_char end_key_stripped CHR ''-'' = 2) then
                    map_sum id Some (add_days end_dt 1)
                  else Inr (Some end_dt))) (\<lambda>end_dt.
     Inr (start_dt, end_dt)))"

section \<open>The shift calendar\<close>

text \<open>\<^verbatim>\<open>app/services/productivity_shift.py\<close>. The clock (\<^verbatim>\<open>datetime.now(tz=JAKARTA_TZ)\<close>)
  and the conversion of an aware datetime (\<^verbatim>\<open>astimezone(JAKARTA_TZ)\<close>, which needs the
  zone database) are parameters.\<close>

record zone_library =
  now_in_jakarta :: datetime
  astimezone_jakarta :: "datetime \<Rightarrow> error + datetime"

definition JAKARTA_TZ :: tz where
  "JAKARTA_TZ = ZoneInfo ''Asia/Jakarta''"

definition dt_in_jakarta :: "zone_library \<Rightarrow> datetime option \<Rightarrow> error + datetime" where
  "dt_in_jakarta zl now =
     (case now of
        None \<Rightarrow> Inr (now_in_jakarta zl)
      | Some t \<Rightarrow>
          if tzinfo t = None then Inr (t\<lparr>tzinfo := Some JAKARTA_TZ\<rparr>)
          else astimezone_jakarta zl t)"

text \<open>\<^verbatim>\<open>date.weekday\<close>: Monday is 0, Sunday is 6.\<close>

definition weekday :: "datetime \<Rightarrow> int" where
  "weekday t = (ymd2ord (year t) (month t) (day t) + 6) mod 7"

definition date_of :: "datetime \<Rightarrow> int \<times> int \<times> int" where
  "date_of t = (year t, month t, day t)"

text \<open>The inner function \<^verbatim>\<open>combine(t, base)\<close>, with the time of day \<open>t\<close> as hour and
  minute: \<^verbatim>\<open>datetime.combine(base.date(), t, tzinfo=JAKARTA_TZ)\<close>.\<close>

definition combine :: "int \<times> int \<Rightarrow> datetime \<Rightarrow> datetime" where
  "combine t base =
     \<lparr>year = year base, month = month base, day = day base, hour = fst t, minute = snd t,
      second = 0, microsecond = 0, tzinfo = Some JAKARTA_TZ\<rparr>"

text \<open>The window start \<open>start_dt\<close> that the branches on the weekday choose, \<open>None\<close> where
  the source leaves it \<^verbatim>\<open>None\<close>.\<close>

definition shift_start :: "datetime \<Rightarrow> error + datetime option" where
  "shift_start now_jkt =
     (let wd = weekday now_jkt in
      if wd \<in> {0, 1, 2, 3} then
        (let t1 = (6, 30); t2 = (14, 30); t3 = (22, 30) in
         if dt_less now_jkt (combine t1 now_jkt)
         then ebind (add_days now_jkt (- 1)) (\<lambda>base. Inr (Some (combine t3 base)))
         else if dt_less now_jkt (combine t2 now_jkt) then Inr (Some (combine t1 now_jkt))
         else if dt_less now_jkt (combine t3 now_jkt) then Inr (Some (combine t2 now_jkt))
         else Inr (Some (combine t3 now_jkt)))
      else if wd = 4 then
        (let t1 = (6, 30); t2 = (15, 0); t3 = (23, 0); t_overlap = (22, 30) in
         if dt_less now_jkt (combine t1 now_jkt)
         then ebind (add_days now_jkt (- 1)) (\<lambda>base. Inr (Some (combine t_overlap base)))
         else if dt_less now_jkt (combine t2 now_jkt) then Inr (Some (combine t1 now_jkt))
         else if dt_less now_jkt (combine t3 now_jkt) then Inr (Some (combine t2 now_jkt))
         else Inr (Some (combine t_overlap now_jkt)))
      else if wd = 5 then
        (let t1 = (6, 30); t2 = (11, 30); t3 = (16, 30) in
         if dt_less now_jkt (combine t1 now_jkt) then Inr None
         else if dt_less now_jkt (combine t2 now_jkt) then Inr (Some (combine t1 now_jkt))
         else if dt_less now_jkt (combine t3 now_jkt) then Inr (Some (combine t2 now_jkt))
         else Inr (Some (combine t3 now_jkt)))
      else Inr None)"

definition get_jakarta_shift_business_date ::
  "zone_library \<Rightarrow> datetime option \<Rightarrow> error + (int \<times> int \<times> int)" where
  "get_jakarta_shift_business_date zl now =
     ebind (dt_in_jakarta zl now) (\<lambda>now_jkt.
     ebind (shift_start now_jkt) (\<lambda>start_dt.
     Inr (date_of (case start_dt of Some s \<Rightarrow> s | None \<Rightarrow> now_jkt))))"

section \<open>The alias registry\<close>

text \<open>\<^verbatim>\<open>Settings.database_urls\<close> of \<^verbatim>\<open>app/core/config.py\<close>. The environment
  (\<^verbatim>\<open>os.environ.items()\<close>) is a list of key/value pairs in iteration order; the two
  settings fields \<^verbatim>\<open>montrg_database_url\<close> and \<^verbatim>\<open>cmms_database_url\<close>, which the settings
  library fills in, are parameters.\<close>

text \<open>\<^verbatim>\<open>re.compile(r'^PFX(\d+)_DATABASE_URL$', re.IGNORECASE).match(key)\<close>, giving
  \<^verbatim>\<open>group(1)\<close>: the prefix and the suffix in any case, one or more decimal digits between
  them; \<^verbatim>\<open>$\<close> also matches before one final line feed.\<close>

definition match_numbered :: "string \<Rightarrow> string \<Rightarrow> string option" where
  "match_numbered pfx key =
     (if lower (take (length pfx) key) = lower pfx then
        (let rest = drop (length pfx) key;
             digits = takeWhile ascii_digit rest;
             tail = dropWhile ascii_digit rest
         in if digits \<noteq> []
               \<and> (lower tail = ''_database_url'' \<or> lower tail = ''_database_url'' @ [CHR 0x0A])
            then Some digits else None)
      else None)"

text \<open>One round of the loop over the environment.\<close>

definition scan_entry :: "(string \<times> string) list \<Rightarrow> string \<times> string \<Rightarrow> (string \<times> string) list" where
  "scan_entry urls kv =
     (case kv of (key, value) \<Rightarrow>
        if value = [] then urls
        else
          case match_numbered ''IP'' key of
            Some ip_number \<Rightarrow> dict_set urls (''ip'' @ lower ip_number) value
          | None \<Rightarrow>
          case match_numbered ''BANB'' key of
            Some banb_number \<Rightarrow> dict_set urls (''banb'' @ lower banb_number) value
          | None \<Rightarrow>
          case match_numbered ''CTM'' key of
            Some ctm_number \<Rightarrow> dict_set urls (''ctm'' @ lower ctm_number) value
          | None \<Rightarrow>
          if startswith (upper key) ''CKP_'' \<and> endswith (upper key) ''_DATABASE_URL''
          then dict_set urls (lower (replace ''_DATABASE_URL'' [] key)) value
          else urls)"

definition Settings_database_urls ::
  "(string \<times> string) list \<Rightarrow> string option \<Rightarrow> string option \<Rightarrow> (string \<times> string) list" where
  "Settings_database_urls environ montrg_database_url cmms_database_url =
     (let urls = foldl scan_entry [] environ;
          urls = (case montrg_database_url of
                    Some v \<Rightarrow> if v \<noteq> [] then dict_set urls ''montrg'' v else urls
                  | None \<Rightarrow> urls);
          urls = (case cmms_database_url of
                    Some v \<Rightarrow> if v \<noteq> [] then dict_set urls ''cmms'' v else urls
                  | None \<Rightarrow> urls)
      in urls)"

text \<open>\<^verbatim>\<open>Settings.default_database_alias\<close>: \<^verbatim>\<open>next(iter(keys), None)\<close>.\<close>

definition Settings_default_database_alias :: "(string \<times> string) list \<Rightarrow> string option" where
  "Settings_default_database_alias database_urls =
     (case database_urls of [] \<Rightarrow> None | (alias, url) # rest \<Rightarrow> Some alias)"

section \<open>Engines, alias resolution and the session scope\<close>

text \<open>\<^verbatim>\<open>app/core/database.py\<close>. What the module asks of its libraries when it is
  imported is a parameter: the two engine constructors of the database toolkit,
  \<^verbatim>\<open>create_engine\<close> and \<^verbatim>\<open>create_async_engine\<close>, called with the URL and the module's
  common settings, each giving an engine (of a type of the toolkit's own, \<open>'s\<close> for the
  synchronous and \<open>'a\<close> for the asynchronous engines) or raising on a URL the toolkit
  refuses; and the initialisation of the native Oracle client (lines 20 to 33, which run
  the driver): \<open>init_oracle_client\<close> is \<open>None\<close> when these lines complete, and the text of
  the exception they end with otherwise.\<close>

record ('s, 'a) engine_library =
  init_oracle_client :: "string option"
  create_engine :: "string \<Rightarrow> error + 's"
  create_async_engine :: "string \<Rightarrow> error + 'a"

text \<open>Lines 18 to 40: the native client is initialised only when the registry holds the
  alias \<open>cmms\<close>, and every failure is raised again as a \<^verbatim>\<open>RuntimeError\<close>.\<close>

definition init_thick_mode ::
  "('s, 'a) engine_library \<Rightarrow> (string \<times> string) list \<Rightarrow> error + unit" where
  "init_thick_mode lib database_urls =
     (if ''cmms'' \<in> set (dict_keys database_urls) then
        (case init_oracle_client lib of
           None \<Rightarrow> Inr ()
         | Some e \<Rightarrow>
             Inl (RuntimeError (''Oracle thick mode initialization failed: '' @ e
               @ ''. Check that Oracle Instant Client is correctly installed and ORACLE_CLIENT_LIB is set.'')))
      else Inr ())"

text \<open>One round of the loop that fills \<^verbatim>\<open>ASYNC_ENGINES\<close> and \<^verbatim>\<open>SYNC_ENGINES\<close> (the
  pair, in this order): the test looks at the URL in lower case, the constructor is given
  the URL as it is, and an exception of the constructor ends the round.\<close>

definition provision_entry ::
  "('s, 'a) engine_library \<Rightarrow> (string \<times> 'a) list \<times> (string \<times> 's) list \<Rightarrow> string \<times> string
   \<Rightarrow> error + ((string \<times> 'a) list \<times> (string \<times> 's) list)" where
  "provision_entry lib engines entry =
     (case (engines, entry) of ((async_engines, sync_engines), (alias, url)) \<Rightarrow>
        if alias = ''cmms'' \<and> startswith (lower url) ''oracle+oracledb''
        then ebind (create_engine lib url) (\<lambda>engine.
             Inr (async_engines, dict_set sync_engines alias engine))
        else ebind (create_async_engine lib url) (\<lambda>engine.
             Inr (dict_set async_engines alias engine, sync_engines)))"

text \<open>The loop over \<^verbatim>\<open>settings.database_urls.items()\<close>: the first exception ends it.\<close>

definition provision_engines ::
  "('s, 'a) engine_library \<Rightarrow> (string \<times> string) list
   \<Rightarrow> error + ((string \<times> 'a) list \<times> (string \<times> 's) list)" where
  "provision_engines lib database_urls =
     foldl (\<lambda>engines entry. ebind engines (\<lambda>filled. provision_entry lib filled entry))
       (Inr ([], [])) database_urls"

text \<open>The state of the module after import: the registry it reads from the settings
  (the environment does not change afterwards) and its four module-level names. A session
  factory is known by the engine it was made for.\<close>

record ('s, 'a) database =
  database_urls :: "(string \<times> string) list"
  ASYNC_ENGINES :: "(string \<times> 'a) list"
  SYNC_ENGINES :: "(string \<times> 's) list"
  SESSION_FACTORIES :: "(string \<times> 'a) list"
  DEFAULT_DB_ALIAS :: string

text \<open>The import of the module, in the order of its statements: the native client, the
  test for an empty registry, the engines, the session factories, the default alias.\<close>

definition import_database ::
  "('s, 'a) engine_library \<Rightarrow> (string \<times> string) list \<Rightarrow> error + ('s, 'a) database" where
  "import_database lib urls =
     ebind (init_thick_mode lib urls) (\<lambda>initialised.
     case urls of
       [] \<Rightarrow> Inl (RuntimeError ''At least one database URL must be configured.'')
     | (first_alias, first_url) # rest \<Rightarrow>
         ebind (provision_engines lib urls) (\<lambda>(async_engines, sync_engines).
         Inr \<lparr>database_urls = urls,
              ASYNC_ENGINES = async_engines,
              SYNC_ENGINES = sync_engines,
              SESSION_FACTORIES = async_engines,
              DEFAULT_DB_ALIAS =
                (case Settings_default_database_alias urls of
                   Some a \<Rightarrow> if a \<noteq> [] then a else first_alias
                 | None \<Rightarrow> first_alias)\<rparr>))"

definition available_databases :: "('s, 'a) database \<Rightarrow> string list" where
  "available_databases db = dict_keys (SESSION_FACTORIES db)"

text \<open>\<^verbatim>\<open>repr\<close> of a list of strings that hold no quote, backslash or control
  character, as every alias of the registry is.\<close>

fun join :: "string \<Rightarrow> string list \<Rightarrow> string" where
  "join sep [] = []"
| "join sep [x] = x"
| "join sep (x # y # ys) = x @ sep @ join sep (y # ys)"

definition repr_list :: "string list \<Rightarrow> string" where
  "repr_list xs = ''['' @ join '', '' (map (\<lambda>x. [CHR 0x27] @ x @ [CHR 0x27]) xs) @ '']''"

definition unknown_alias_message :: "string \<Rightarrow> string list \<Rightarrow> string" where
  "unknown_alias_message resolved available =
     ''Unknown database alias '' @ [CHR 0x27] @ resolved @ [CHR 0x27] @ ''. Available: ''
     @ repr_list available"

definition resolve_db_alias :: "('s, 'a) database \<Rightarrow> string option \<Rightarrow> error + string" where
  "resolve_db_alias db alias =
     (let resolved = (case alias of
                        Some a \<Rightarrow> if a \<noteq> [] then a else DEFAULT_DB_ALIAS db
                      | None \<Rightarrow> DEFAULT_DB_ALIAS db)
      in if resolved \<notin> set (dict_keys (database_urls db))
         then Inl (ValueError (unknown_alias_message resolved (available_databases db)))
         else Inr resolved)"

subsection \<open>The session scope\<close>

text \<open>
  \<^verbatim>\<open>get_session\<close> is an asynchronous context manager. Its caller's block uses the session
  and ends in one of three ways: it returns, it raises, or the task is cancelled while the
  block waits (the cancellation arrives in the block as an exception at that point). The
  session of the ORM holds at most one pooled connection: it checks one out of the engine's
  pool when a statement is executed and it holds none, and gives it back when the
  transaction ends or the session is closed. \<open>checked_out\<close> counts, per alias, the
  connections that are out of the pool.
\<close>

datatype outcome = Returned | Raised error | Cancelled

datatype session_op = Execute | Commit | Rollback | Close

record session =
  bound_alias :: string
  holds_connection :: bool

type_synonym pools = "string \<Rightarrow> nat"

definition checkout :: "session \<times> pools \<Rightarrow> session \<times> pools" where
  "checkout sp =
     (case sp of (s, p) \<Rightarrow>
        if holds_connection s then (s, p)
        else (s\<lparr>holds_connection := True\<rparr>, p(bound_alias s := p (bound_alias s) + 1)))"

definition release :: "session \<times> pools \<Rightarrow> session \<times> pools" where
  "release sp =
     (case sp of (s, p) \<Rightarrow>
        if holds_connection s
        then (s\<lparr>holds_connection := False\<rparr>, p(bound_alias s := p (bound_alias s) - 1))
        else (s, p))"

fun session_step :: "session \<times> pools \<Rightarrow> session_op \<Rightarrow> session \<times> pools" where
  "session_step sp Execute = checkout sp"
| "session_step sp Commit = release sp"
| "session_step sp Rollback = release sp"
| "session_step sp Close = release sp"

text \<open>The caller's block: the operations it performs on the session it was given, and how
  it ends.\<close>

type_synonym block = "session_op list \<times> outcome"

text \<open>\<^verbatim>\<open>get_session\<close>: the alias is resolved and looked up; the factory's session is
  entered; the block runs at the \<^verbatim>\<open>yield\<close>; whatever its outcome, the \<^verbatim>\<open>finally\<close> clause
  closes the session, and leaving the inner \<^verbatim>\<open>async with\<close> closes it once more; the
  block's outcome is the outcome of the scope. An exception of \<^verbatim>\<open>get_session\<close> itself is
  raised before a session exists.\<close>

definition get_session :: "('s, 'a) database \<Rightarrow> string option \<Rightarrow> block \<Rightarrow> pools \<Rightarrow> outcome \<times> pools" where
  "get_session db db_alias blk p =
     (case resolve_db_alias db db_alias of
        Inl e \<Rightarrow> (Raised e, p)
      | Inr alias \<Rightarrow>
          if alias \<notin> set (dict_keys (SESSION_FACTORIES db))
          then (Raised (ValueError (''Asynchronous session is not configured for alias ''
                                     @ [CHR 0x27] @ alias @ [CHR 0x27])), p)
          else
            (let sp = (\<lparr>bound_alias = alias, holds_connection = False\<rparr>, p);
                 sp = foldl session_step sp (fst blk);
                 sp = release sp;
                 sp = release sp
             in (snd blk, snd sp)))"

section \<open>Calendar notions used to state the properties\<close>

text \<open>The day after and the day before a calendar date, by the calendar's own rules
  (month lengths, leap years), without ordinals.\<close>

definition next_date :: "int \<Rightarrow> int \<Rightarrow> int \<Rightarrow> int \<times> int \<times> int" where
  "next_date y m d =
     (if d < days_in_month y m then (y, m, d + 1)
      else if m < 12 then (y, m + 1, 1) else (y + 1, 1, 1))"

definition prev_date :: "int \<Rightarrow> int \<Rightarrow> int \<Rightarrow> int \<times> int \<times> int" where
  "prev_date y m d =
     (if 1 < d then (y, m, d - 1)
      else if 1 < m then (y, m - 1, days_in_month y (m - 1)) else (y - 1, 12, 31))"

text \<open>The first instant of a day, as a naive datetime.\<close>

definition midnight :: "int \<times> int \<times> int \<Rightarrow> datetime" where
  "midnight ymd =
     (case ymd of (y, m, d) \<Rightarrow>
        \<lparr>year = y, month = m, day = d, hour = 0, minute = 0, second = 0, microsecond = 0,
         tzinfo = None\<rparr>)"

text \<open>A key made of decimal digits only.\<close>

definition decimal :: "string \<Rightarrow> bool" where
  "decimal s = list_all ascii_digit s"

text \<open>The calendar period a digits-only key denotes: a year, a month or a day, read off
  the key's digits by position.\<close>

datatype period = Year int | Month int int | Day int int int

fun first_day :: "period \<Rightarrow> int \<times> int \<times> int" where
  "first_day (Year y) = (y, 1, 1)"
| "first_day (Month y m) = (y, m, 1)"
| "first_day (Day y m d) = (y, m, d)"

fun last_day :: "period \<Rightarrow> int \<times> int \<times> int" where
  "last_day (Year y) = (y, 12, 31)"
| "last_day (Month y m) = (y, m, days_in_month y m)"
| "last_day (Day y m d) = (y, m, d)"

definition key_period :: "string \<Rightarrow> period option" where
  "key_period k =
     (if \<not> decimal k then None
      else if length k = 4 then Some (Year (decimal_value k))
      else if length k = 6 then
        Some (Month (decimal_value (take 4 k)) (decimal_value (drop 4 k)))
      else if length k = 8 then
        Some (Day (decimal_value (take 4 k)) (decimal_value (take 2 (drop 4 k)))
                  (decimal_value (drop 6 k)))
      else None)"

text \<open>A period of the calendar that \<^verbatim>\<open>datetime\<close> can represent.\<close>

definition valid_ymd :: "int \<times> int \<times> int \<Rightarrow> bool" where
  "valid_ymd ymd = (case ymd of (y, m, d) \<Rightarrow> valid_date y m d)"

definition valid_period :: "period \<Rightarrow> bool" where
  "valid_period p = (valid_ymd (first_day p) \<and> valid_ymd (last_day p))"

definition day_after :: "int \<times> int \<times> int \<Rightarrow> int \<times> int \<times> int" where
  "day_after ymd = (case ymd of (y, m, d) \<Rightarrow> next_date y m d)"

definition day_before :: "int \<times> int \<times> int \<Rightarrow> int \<times> int \<times> int" where
  "day_before ymd = (case ymd of (y, m, d) \<Rightarrow> prev_date y m d)"

text \<open>A time of day before 06:30, the first shift boundary of every working day.\<close>

definition before_first_shift :: "datetime \<Rightarrow> bool" where
  "before_first_shift t = (hour t < 6 \<or> (hour t = 6 \<and> minute t < 30))"

text \<open>Engines for the examples: an engine known by its kind and its URL.\<close>

datatype engine = AsyncEngine string | SyncEngine string

text \<open>The decision rule for one registry entry, as a predicate.\<close>

definition sync_entry :: "string \<times> string \<Rightarrow> bool" where
  "sync_entry e =
     (case e of (alias, url) \<Rightarrow> alias = ''cmms'' \<and> startswith (lower url) ''oracle+oracledb'')"

text \<open>The invariant of a session scope on the alias \<open>alias\<close> entered with the pools
  \<open>p0\<close>: the session is bound to that alias, and the pools differ from \<open>p0\<close> by exactly
  the connection the session holds, if it holds one.\<close>

definition scope_inv :: "string \<Rightarrow> pools \<Rightarrow> session \<times> pools \<Rightarrow> bool" where
  "scope_inv alias p0 sp =
     (case sp of (s, p) \<Rightarrow>
        bound_alias s = alias
        \<and> p = (if holds_connection s then p0(alias := p0 alias + 1) else p0))"

text \<open>\<open>occurs old s\<close>: the text \<open>old\<close> occurs somewhere in \<open>s\<close>.\<close>

fun occurs :: "string \<Rightarrow> string \<Rightarrow> bool" where
  "occurs old [] = (old = [])"
| "occurs old (c # cs) = (take (length old) (c # cs) = old \<or> occurs old cs)"

text \<open>The entries for the two fixed names, the analytics warehouse before the CMMS, each
  present when its setting is set and not empty.\<close>

definition fixed_entries :: "string option \<Rightarrow> string option \<Rightarrow> (string \<times> string) list" where
  "fixed_entries montrg_database_url cmms_database_url =
     (case montrg_database_url of
        Some v \<Rightarrow> if v \<noteq> [] then [(''montrg'', v)] else []
      | None \<Rightarrow> [])
     @ (case cmms_database_url of
          Some v \<Rightarrow> if v \<noteq> [] then [(''cmms'', v)] else []
        | None \<Rightarrow> [])"

text \<open>An alias that begins like the aliases of the four key patterns.\<close>

definition pattern_alias :: "string \<Rightarrow> bool" where
  "pattern_alias a =
     (take 2 a = ''ip'' \<or> take 4 a = ''banb'' \<or> take 3 a = ''ctm'' \<or> take 3 a = ''ckp'')"

definition scanned_alias :: "string \<Rightarrow> bool" where
  "scanned_alias a = (lower a = a \<and> pattern_alias a)"

section \<open>Properties\<close>


subsection \<open>The calendar: ordinals and dates are inverse\<close>

text \<open>A year is split into 400-, 100-, 4- and 1-year cycles, as \<open>ord2ymd\<close> splits the
  ordinal; the day of the year is then matched against the month estimate.\<close>

lemma div_unique_pos:
  fixes k q r :: int
  assumes "0 \<le> r" "r < k"
  shows "(k * q + r) div k = q"
  using assms by (simp add: div_pos_pos_trivial)

lemma mod_unique_pos:
  fixes k q r :: int
  assumes "0 \<le> r" "r < k"
  shows "(k * q + r) mod k = r"
  using assms by (simp add: mod_pos_pos_trivial)

lemma mod_zero_iff_top:
  fixes x k :: int
  assumes "0 < x" "x \<le> k"
  shows "(x mod k = 0) = (x = k)"
proof (cases "x = k")
  case True
  then show ?thesis by simp
next
  case False
  with assms have "x mod k = x" by (simp add: mod_pos_pos_trivial)
  with False assms show ?thesis by simp
qed

lemma dby_decomp:
  fixes a b c e :: int
  assumes "0 \<le> b" "b < 4" "0 \<le> c" "c < 25" "0 \<le> e" "e < 4"
  shows "days_before_year (400 * a + 100 * b + 4 * c + e + 1) = 146097 * a + 36524 * b + 1461 * c + 365 * e"
proof -
  let ?p = "400 * a + 100 * b + 4 * c + e"
  have "?p = 4 * (100 * a + 25 * b + c) + e" by simp
  then have d4: "?p div 4 = 100 * a + 25 * b + c"
    using div_unique_pos [of e 4 "100 * a + 25 * b + c"] assms by simp
  have "?p = 100 * (4 * a + b) + (4 * c + e)" by simp
  then have d100: "?p div 100 = 4 * a + b"
    using div_unique_pos [of "4 * c + e" 100 "4 * a + b"] assms by simp
  have "?p = 400 * a + (100 * b + 4 * c + e)" by simp
  then have d400: "?p div 400 = a"
    using div_unique_pos [of "100 * b + 4 * c + e" 400 a] assms by simp
  show ?thesis unfolding days_before_year_def Let_def
    using d4 d100 d400 by simp
qed

lemma leap_decomp:
  fixes a b c e :: int
  assumes "0 \<le> b" "b < 4" "0 \<le> c" "c < 25" "0 \<le> e" "e < 4"
  shows "is_leap (400 * a + 100 * b + 4 * c + e + 1) = (e = 3 \<and> (c \<noteq> 24 \<or> b = 3))"
proof -
  let ?y = "400 * a + 100 * b + 4 * c + e + 1"
  have "?y = 4 * (100 * a + 25 * b + c) + (e + 1)" by simp
  then have m4: "?y mod 4 = (e + 1) mod 4"
    by (metis mod_mult_self4)
  have "?y = 100 * (4 * a + b) + (4 * c + e + 1)" by simp
  then have m100: "?y mod 100 = (4 * c + e + 1) mod 100"
    by (metis mod_mult_self4)
  have "?y = 400 * a + (100 * b + 4 * c + e + 1)" by simp
  then have m400: "?y mod 400 = (100 * b + 4 * c + e + 1) mod 400"
    by (metis mod_mult_self4)
  have e4: "((e + 1) mod 4 = 0) = (e = 3)"
    using mod_zero_iff_top [of "e + 1" 4] assms by auto
  have "4 * c + e + 1 = 100 \<Longrightarrow> c = 24" "4 * c + e + 1 = 100 \<Longrightarrow> e = 3"
    using assms by linarith+
  then have "(4 * c + e + 1 = 100) = (c = 24 \<and> e = 3)"
    by auto
  then have c100: "((4 * c + e + 1) mod 100 = 0) = (c = 24 \<and> e = 3)"
    using mod_zero_iff_top [of "4 * c + e + 1" 100] assms by simp
  have "100 * b + 4 * c + e + 1 = 400 \<Longrightarrow> b = 3"
    "100 * b + 4 * c + e + 1 = 400 \<Longrightarrow> c = 24"
    "100 * b + 4 * c + e + 1 = 400 \<Longrightarrow> e = 3"
    using assms by linarith+
  then have "(100 * b + 4 * c + e + 1 = 400) = (b = 3 \<and> c = 24 \<and> e = 3)"
    by auto
  then have b400: "((100 * b + 4 * c + e + 1) mod 400 = 0) = (b = 3 \<and> c = 24 \<and> e = 3)"
    using mod_zero_iff_top [of "100 * b + 4 * c + e + 1" 400] assms by simp
  show ?thesis unfolding is_leap_def m4 m100 m400 e4 c100 b400 by blast
qed

lemma div32_cases:
  fixes x :: int
  assumes "32 * q \<le> x" "x < 32 * q + 32"
  shows "x div 32 = q"
proof -
  have "x = 32 * q + (x - 32 * q)" by simp
  moreover have "0 \<le> x - 32 * q" "x - 32 * q < 32" using assms by simp_all
  ultimately have "x div 32 = (32 * q + (x - 32 * q)) div 32" by simp
  also have "\<dots> = q + (x - 32 * q) div 32" by (rule div_mult_self4) simp
  also have "(x - 32 * q) div 32 = 0" using \<open>0 \<le> x - 32 * q\<close> \<open>x - 32 * q < 32\<close>
    by (rule div_pos_pos_trivial)
  finally show ?thesis by simp
qed

lemma month_of_yday_same:
  assumes "1 \<le> m" "m \<le> 12" "32 * m \<le> r + 50" "r + 50 < 32 * m + 32"
    and "DAYS_BEFORE_MONTH m + (if m > 2 \<and> L then 1 else 0) \<le> r"
  shows "month_of_yday L r = (m, r - (DAYS_BEFORE_MONTH m + (if m > 2 \<and> L then 1 else 0)) + 1)"
proof -
  have "(r + 50) div 32 = m" using assms(3,4) by (rule div32_cases)
  then show ?thesis using assms(5) by (simp add: month_of_yday_def Let_def)
qed

lemma month_of_yday_next:
  assumes "1 \<le> m" "m \<le> 11" "32 * m + 32 \<le> r + 50" "r + 50 < 32 * m + 64"
    and "r < DAYS_BEFORE_MONTH (m + 1) + (if m + 1 > 2 \<and> L then 1 else 0)"
  shows "month_of_yday L r = (m, r - (DAYS_BEFORE_MONTH (m + 1) + (if m + 1 > 2 \<and> L then 1 else 0)
       - (DAYS_IN_MONTH m + (if m = 2 \<and> L then 1 else 0))) + 1)"
proof -
  have "(r + 50) div 32 = m + 1" using assms(3,4) by (intro div32_cases) simp_all
  then show ?thesis using assms(5) by (simp add: month_of_yday_def Let_def)
qed

lemma month_cases:
  fixes m :: int
  assumes "1 \<le> m" "m \<le> 12"
  shows "m = 1 \<or> m = 2 \<or> m = 3 \<or> m = 4 \<or> m = 5 \<or> m = 6 \<or> m = 7 \<or> m = 8 \<or> m = 9 \<or> m = 10 \<or> m = 11 \<or> m = 12"
  using assms by presburger

lemma month_est:
  assumes m: "1 \<le> m" "m \<le> 12" and d: "1 \<le> d" "d \<le> DAYS_IN_MONTH m + (if m = 2 \<and> L then 1 else 0)"
    and r: "r = DAYS_BEFORE_MONTH m + (if m > 2 \<and> L then 1 else 0) + d - 1"
    and r364: "r \<le> 364"
  shows "month_of_yday L r = (m, d)"
proof (cases "r + 50 < 32 * m + 32")
  case True
  have lo: "32 * m \<le> r + 50"
    using month_cases [OF m] d r
    by (auto simp: DAYS_BEFORE_MONTH_def DAYS_IN_MONTH_def split: if_splits)
  have "DAYS_BEFORE_MONTH m + (if m > 2 \<and> L then 1 else 0) \<le> r"
    using r d by simp
  from month_of_yday_same [OF m lo True this] r show ?thesis by simp
next
  case False
  have m11: "m \<le> 11"
    using month_cases [OF m] d r r364 False
    by (auto simp: DAYS_BEFORE_MONTH_def DAYS_IN_MONTH_def split: if_splits)
  have hi: "r + 50 < 32 * m + 64"
    using month_cases [OF m] d r
    by (auto simp: DAYS_BEFORE_MONTH_def DAYS_IN_MONTH_def split: if_splits)
  have step: "DAYS_BEFORE_MONTH (m + 1) + (if m + 1 > 2 \<and> L then 1 else 0)
       = DAYS_BEFORE_MONTH m + (if m > 2 \<and> L then 1 else 0) + (DAYS_IN_MONTH m + (if m = 2 \<and> L then 1 else 0))"
    using month_cases [OF m] m11
    by (auto simp: DAYS_BEFORE_MONTH_def DAYS_IN_MONTH_def split: if_splits)
  have lt: "r < DAYS_BEFORE_MONTH (m + 1) + (if m + 1 > 2 \<and> L then 1 else 0)"
    unfolding step using r d by simp
  have lo: "32 * m + 32 \<le> r + 50" using False by simp
  from month_of_yday_next [OF m(1) m11 lo hi lt] show ?thesis
    unfolding step using r by simp
qed

lemma ord2ymd_generic:
  fixes a b c e r :: int
  assumes "0 \<le> b" "b < 4" "0 \<le> c" "c < 25" "0 \<le> e" "e < 4" "0 \<le> r" "r \<le> 364"
  shows "ord2ymd (146097 * a + 36524 * b + 1461 * c + 365 * e + r + 1) =
    (case month_of_yday (e = 3 \<and> (c \<noteq> 24 \<or> b = 3)) r of
       (m, d) \<Rightarrow> (400 * a + 100 * b + 4 * c + e + 1, m, d))"
proof -
  define Z where "Z = 365 * e + r"
  define Y where "Y = 1461 * c + Z"
  define X where "X = 36524 * b + Y"
  define N where "N = 146097 * a + X"
  have Zb: "0 \<le> Z" "Z < 1461" and Zc: "Z < 1460" using assms by (simp_all add: Z_def)
  have Yb: "0 \<le> Y" "Y < 36524" using assms Zb Zc by (simp_all add: Y_def)
  have Xb: "0 \<le> X" "X < 146097" using assms Yb by (simp_all add: X_def)
  have r365: "r < 365" using assms by simp
  have s1: "N div 146097 = a" "N mod 146097 = X"
    unfolding N_def using Xb by (simp_all add: div_unique_pos mod_unique_pos)
  have s2: "X div 36524 = b" "X mod 36524 = Y"
    unfolding X_def using Yb by (simp_all add: div_unique_pos mod_unique_pos)
  have s3: "Y div 1461 = c" "Y mod 1461 = Z"
    unfolding Y_def using Zb by (simp_all add: div_unique_pos mod_unique_pos)
  have s4: "Z div 365 = e" "Z mod 365 = r"
    unfolding Z_def using assms(7) r365 by (simp_all add: div_unique_pos mod_unique_pos)
  have N: "146097 * a + 36524 * b + 1461 * c + 365 * e + r + 1 - 1 = N"
    by (simp add: N_def X_def Y_def Z_def)
  have ne: "e \<noteq> 4" "b \<noteq> 4" using assms by simp_all
  show ?thesis
    unfolding ord2ymd_def Let_def N s1 s2 s3 s4 using ne by (simp add: algebra_simps)
qed

lemma ord2ymd_leap_end:
  fixes a b c :: int
  assumes "0 \<le> b" "b < 4" "0 \<le> c" "c < 25" "c \<noteq> 24 \<or> b = 3"
  shows "ord2ymd (146097 * a + 36524 * b + 1461 * c + 365 * 3 + 365 + 1) =
     (400 * a + 100 * b + 4 * c + 3 + 1, 12, 31)"
proof (cases "c = 24")
  case False
  define Z :: int where "Z = 1460"
  define Y where "Y = 1461 * c + Z"
  define X where "X = 36524 * b + Y"
  define N where "N = 146097 * a + X"
  have Zb: "0 \<le> Z" "Z < 1461" by (simp_all add: Z_def)
  have Yb: "0 \<le> Y" "Y < 36524" using assms False by (simp_all add: Y_def Z_def)
  have Xb: "0 \<le> X" "X < 146097" using assms Yb by (simp_all add: X_def)
  have s1: "N div 146097 = a" "N mod 146097 = X"
    unfolding N_def using Xb by (simp_all add: div_unique_pos mod_unique_pos)
  have s2: "X div 36524 = b" "X mod 36524 = Y"
    unfolding X_def using Yb by (simp_all add: div_unique_pos mod_unique_pos)
  have s3: "Y div 1461 = c" "Y mod 1461 = Z"
    unfolding Y_def using Zb by (simp_all add: div_unique_pos mod_unique_pos)
  have s4: "Z div 365 = 4" by (simp add: Z_def)
  have N: "146097 * a + 36524 * b + 1461 * c + 365 * 3 + 365 + 1 - 1 = N"
    by (simp add: N_def X_def Y_def Z_def)
  show ?thesis
    unfolding ord2ymd_def Let_def N s1 s2 s3 s4 by simp
next
  case True
  with assms have b3: "b = 3" by simp
  define X :: int where "X = 146096"
  define N where "N = 146097 * a + X"
  have s1: "N div 146097 = a" "N mod 146097 = X"
    unfolding N_def by (simp_all add: div_unique_pos mod_unique_pos X_def)
  have s2: "X div 36524 = 4" "X mod 36524 = 0" by (simp_all add: X_def)
  have N: "146097 * a + 36524 * b + 1461 * c + 365 * 3 + 365 + 1 - 1 = N"
    by (simp add: N_def X_def True b3)
  show ?thesis
    unfolding ord2ymd_def Let_def N s1 s2 by (simp add: True b3)
qed

lemma year_cycles:
  fixes y :: int
  obtains a b c e where "y = 400 * a + 100 * b + 4 * c + e + 1"
    "0 \<le> b" "b < 4" "0 \<le> c" "c < 25" "0 \<le> e" "e < 4" "(0 \<le> a) = (1 \<le> y)"
proof -
  define p where "p = y - 1"
  define a where "a = p div 400"
  define q where "q = p mod 400"
  define b where "b = q div 100"
  define s where "s = q mod 100"
  define c where "c = s div 4"
  define e where "e = s mod 4"
  have p: "p = 400 * a + q" by (simp add: a_def q_def)
  have q: "q = 100 * b + s" by (simp add: b_def s_def)
  have s: "s = 4 * c + e" by (simp add: c_def e_def)
  have qb: "0 \<le> q" "q < 400" by (simp_all add: q_def)
  have sb: "0 \<le> s" "s < 100" by (simp_all add: s_def)
  have eb: "0 \<le> e" "e < 4" by (simp_all add: e_def)
  have bb: "0 \<le> b" "b < 4" using q qb sb by linarith+
  have cb: "0 \<le> c" "c < 25" using s sb eb by linarith+
  have ab: "(0 \<le> a) = (1 \<le> y)" using p qb by (auto simp: p_def; linarith)
  have "y = 400 * a + 100 * b + 4 * c + e + 1" using p q s by (simp add: p_def)
  then show thesis using bb cb eb ab by (rule that)
qed

lemma yday_bounds:
  assumes "1 \<le> m" "m \<le> 12" "1 \<le> d" "d \<le> days_in_month y m"
  shows "0 \<le> days_before_month y m + d - 1"
    and "days_before_month y m + d - 1 \<le> 364 + (if is_leap y then 1 else 0)"
    and "days_before_month y m + d - 1 = 365 \<Longrightarrow> is_leap y \<and> m = 12 \<and> d = 31"
  using month_cases [OF assms(1,2)] assms(3,4)
  by (auto simp: days_before_month_def days_in_month_def DAYS_BEFORE_MONTH_def DAYS_IN_MONTH_def
       split: if_splits)

lemma ord2ymd_ymd2ord:
  assumes "1 \<le> m" "m \<le> 12" "1 \<le> d" "d \<le> days_in_month y m"
  shows "ord2ymd (ymd2ord y m d) = (y, m, d)"
proof -
  obtain a b c e where y: "y = 400 * a + 100 * b + 4 * c + e + 1"
    and bnd: "0 \<le> b" "b < 4" "0 \<le> c" "c < 25" "0 \<le> e" "e < 4"
    by (rule year_cycles)
  define r where "r = days_before_month y m + d - 1"
  have leap: "is_leap y = (e = 3 \<and> (c \<noteq> 24 \<or> b = 3))"
    unfolding y using bnd by (rule leap_decomp)
  have dby: "days_before_year y = 146097 * a + 36524 * b + 1461 * c + 365 * e"
    unfolding y using bnd by (rule dby_decomp)
  have ord: "ymd2ord y m d = 146097 * a + 36524 * b + 1461 * c + 365 * e + r + 1"
    by (simp add: ymd2ord_def dby r_def)
  have r0: "0 \<le> r" unfolding r_def using assms by (rule yday_bounds(1))
  show ?thesis
  proof (cases "r \<le> 364")
    case True
    have dm: "d \<le> DAYS_IN_MONTH m + (if m = 2 \<and> is_leap y then 1 else 0)"
      using assms(4) by (auto simp: days_in_month_def DAYS_IN_MONTH_def split: if_splits)
    have rr: "r = DAYS_BEFORE_MONTH m + (if m > 2 \<and> is_leap y then 1 else 0) + d - 1"
      by (simp add: r_def days_before_month_def)
    have "month_of_yday (is_leap y) r = (m, d)"
      using assms(1,2,3) dm rr True by (rule month_est)
    then have "month_of_yday (e = 3 \<and> (c \<noteq> 24 \<or> b = 3)) r = (m, d)"
      by (simp add: leap)
    then show ?thesis
      unfolding ord using ord2ymd_generic [OF bnd r0 True, of a] by (simp add: y)
  next
    case False
    have "r \<le> 364 + (if is_leap y then 1 else 0)"
      unfolding r_def using assms by (rule yday_bounds(2))
    with False have r365: "r = 365" by (simp split: if_splits)
    then have "is_leap y \<and> m = 12 \<and> d = 31"
      unfolding r_def using yday_bounds(3) [OF assms] by simp
    then have L: "e = 3" "c \<noteq> 24 \<or> b = 3" and md: "m = 12" "d = 31"
      by (simp_all add: leap)
    show ?thesis
      unfolding ord r365 L(1) using ord2ymd_leap_end [OF bnd(1-4) L(2), of a]
      by (simp add: y L(1) md)
  qed
qed

subsection \<open>The day after and the day before, through ordinals\<close>

lemma div_step:
  fixes y k :: int
  assumes "0 < k"
  shows "y div k - (y - 1) div k = (if y mod k = 0 then 1 else 0)"
proof -
  define q where "q = y div k"
  define r where "r = y mod k"
  have y: "y = k * q + r" by (simp add: q_def r_def)
  have rb: "0 \<le> r" "r < k" using assms by (simp_all add: r_def)
  show ?thesis
  proof (cases "r = 0")
    case True
    have e: "y - 1 = k * (q - 1) + (k - 1)" by (simp add: y True algebra_simps)
    have "(y - 1) div k = (k * (q - 1) + (k - 1)) div k" by (simp only: e)
    also have "\<dots> = q - 1"
      using assms by (intro div_unique_pos) simp_all
    finally have "(y - 1) div k = q - 1" .
    with True show ?thesis by (simp add: q_def [symmetric] r_def [symmetric])
  next
    case False
    have e: "y - 1 = k * q + (r - 1)" by (simp add: y)
    have "(y - 1) div k = (k * q + (r - 1)) div k" by (simp only: e)
    also have "\<dots> = q"
      using rb False by (intro div_unique_pos) simp_all
    finally have "(y - 1) div k = q" .
    with False show ?thesis by (simp add: q_def [symmetric] r_def [symmetric])
  qed
qed

lemma mod_0_weaken:
  fixes y j k :: int
  assumes "j dvd k" "y mod k = 0"
  shows "y mod j = 0"
proof -
  from assms(2) have "k dvd y" by (simp add: dvd_eq_mod_eq_0)
  with assms(1) have "j dvd y" by (rule dvd_trans)
  then show ?thesis by (simp add: dvd_eq_mod_eq_0)
qed

lemma dby_step: "days_before_year (y + 1) = days_before_year y + 365 + (if is_leap y then 1 else 0)"
proof -
  have d4: "y div 4 = (y - 1) div 4 + (if y mod 4 = 0 then 1 else 0)"
    using div_step [of 4 y] by simp
  have d100: "y div 100 = (y - 1) div 100 + (if y mod 100 = 0 then 1 else 0)"
    using div_step [of 100 y] by simp
  have d400: "y div 400 = (y - 1) div 400 + (if y mod 400 = 0 then 1 else 0)"
    using div_step [of 400 y] by simp
  have imp1: "y mod 400 = 0 \<Longrightarrow> y mod 100 = 0"
    by (rule mod_0_weaken [of 100 400]) simp_all
  have imp2: "y mod 100 = 0 \<Longrightarrow> y mod 4 = 0"
    by (rule mod_0_weaken [of 4 100]) simp_all
  define u where "u = (y - 1) div 4"
  define v where "v = (y - 1) div 100"
  define w where "w = (y - 1) div 400"
  have "days_before_year (y + 1) = y * 365 + y div 4 - y div 100 + y div 400"
    by (simp add: days_before_year_def Let_def)
  also have "\<dots> = ((y - 1) * 365 + u - v + w) + 365
       + ((if y mod 4 = 0 then 1 else 0) - (if y mod 100 = 0 then 1 else 0)
          + (if y mod 400 = 0 then 1 else 0))"
    unfolding d4 d100 d400 u_def [symmetric] v_def [symmetric] w_def [symmetric]
    by (simp add: algebra_simps)
  also have "(y - 1) * 365 + u - v + w = days_before_year y"
    by (simp add: days_before_year_def Let_def u_def v_def w_def)
  also have "((if y mod 4 = 0 then 1 else 0) - (if y mod 100 = 0 then 1 else 0)
          + (if y mod 400 = 0 then 1 else 0)) = (if is_leap y then (1::int) else 0)"
  proof (cases "y mod 400 = 0")
    case True
    from imp1 [OF True] have c: "y mod 100 = 0" .
    from imp2 [OF c] have "y mod 4 = 0" .
    then show ?thesis by (simp only: is_leap_def True c) simp
  next
    case n400: False
    show ?thesis
    proof (cases "y mod 100 = 0")
      case True
      from imp2 [OF True] have "y mod 4 = 0" .
      then show ?thesis using n400 by (simp only: is_leap_def True) simp
    next
      case False
      then show ?thesis using n400 by (simp only: is_leap_def) simp
    qed
  qed
  finally show ?thesis .
qed

lemma dbm_step:
  assumes "1 \<le> m" "m \<le> 11"
  shows "days_before_month y (m + 1) = days_before_month y m + days_in_month y m"
  using assms month_cases [of m]
  by (auto simp: days_before_month_def days_in_month_def DAYS_BEFORE_MONTH_def DAYS_IN_MONTH_def)

lemma dbm_12: "days_before_month y 12 + 31 = 365 + (if is_leap y then 1 else 0)"
  by (simp add: days_before_month_def DAYS_BEFORE_MONTH_def)

lemma dbm_1: "days_before_month y 1 = 0"
  by (simp add: days_before_month_def DAYS_BEFORE_MONTH_def)

lemma dim_12: "days_in_month y 12 = 31"
  by (simp add: days_in_month_def DAYS_IN_MONTH_def)

lemma dim_pos: "1 \<le> m \<Longrightarrow> m \<le> 12 \<Longrightarrow> 28 \<le> days_in_month y m"
  using month_cases [of m]
  by (auto simp: days_in_month_def DAYS_IN_MONTH_def)

lemma ymd2ord_next:
  assumes "1 \<le> m" "m \<le> 12" "1 \<le> d" "d \<le> days_in_month y m"
  shows "(case next_date y m d of (y', m', d') \<Rightarrow> ymd2ord y' m' d') = ymd2ord y m d + 1"
proof (cases "d < days_in_month y m")
  case True
  then show ?thesis by (simp add: next_date_def ymd2ord_def)
next
  case last: False
  with assms have d: "d = days_in_month y m" by simp
  show ?thesis
  proof (cases "m < 12")
    case True
    with assms have "m \<le> 11" by simp
    from dbm_step [OF assms(1) this, of y] show ?thesis
      using last True by (simp add: next_date_def ymd2ord_def d)
  next
    case False
    with assms have m: "m = 12" by simp
    show ?thesis
      using last dbm_12 [of y] dby_step [of y]
      by (simp add: next_date_def ymd2ord_def d m dim_12 dbm_1)
  qed
qed

lemma valid_next:
  assumes "1 \<le> m" "m \<le> 12" "1 \<le> d" "d \<le> days_in_month y m"
  shows "case next_date y m d of (y', m', d') \<Rightarrow> 1 \<le> m' \<and> m' \<le> 12 \<and> 1 \<le> d' \<and> d' \<le> days_in_month y' m'"
  using assms dim_pos [of "m + 1" y] dim_pos [of 1 "y + 1"]
  by (auto simp: next_date_def)

lemma ymd2ord_prev:
  assumes "1 \<le> m" "m \<le> 12" "1 \<le> d" "d \<le> days_in_month y m"
  shows "(case prev_date y m d of (y', m', d') \<Rightarrow> ymd2ord y' m' d') = ymd2ord y m d - 1"
proof (cases "1 < d")
  case True
  then show ?thesis by (simp add: prev_date_def ymd2ord_def)
next
  case first: False
  with assms have d: "d = 1" by simp
  show ?thesis
  proof (cases "1 < m")
    case True
    with assms have "1 \<le> m - 1" "m - 1 \<le> 11" by simp_all
    from dbm_step [OF this, of y] show ?thesis
      using first True by (simp add: prev_date_def ymd2ord_def d)
  next
    case False
    with assms have m: "m = 1" by simp
    show ?thesis
      using dbm_12 [of "y - 1"] dby_step [of "y - 1"]
      by (simp add: prev_date_def ymd2ord_def d m dbm_1)
  qed
qed

lemma valid_prev:
  assumes "1 \<le> m" "m \<le> 12" "1 \<le> d" "d \<le> days_in_month y m"
  shows "case prev_date y m d of (y', m', d') \<Rightarrow> 1 \<le> m' \<and> m' \<le> 12 \<and> 1 \<le> d' \<and> d' \<le> days_in_month y' m'"
  using assms dim_pos [of "m - 1" y]
  by (auto simp: prev_date_def dim_12)

lemma ord2ymd_succ:
  assumes "1 \<le> m" "m \<le> 12" "1 \<le> d" "d \<le> days_in_month y m"
  shows "ord2ymd (ymd2ord y m d + 1) = next_date y m d"
proof -
  obtain y' m' d' where n: "next_date y m d = (y', m', d')" by (cases "next_date y m d")
  from valid_next [OF assms] n have v: "1 \<le> m'" "m' \<le> 12" "1 \<le> d'" "d' \<le> days_in_month y' m'"
    by simp_all
  from ymd2ord_next [OF assms] n have "ymd2ord y' m' d' = ymd2ord y m d + 1" by simp
  with ord2ymd_ymd2ord [OF v] n show ?thesis by simp
qed

lemma ord2ymd_pred:
  assumes "1 \<le> m" "m \<le> 12" "1 \<le> d" "d \<le> days_in_month y m"
  shows "ord2ymd (ymd2ord y m d - 1) = prev_date y m d"
proof -
  obtain y' m' d' where n: "prev_date y m d = (y', m', d')" by (cases "prev_date y m d")
  from valid_prev [OF assms] n have v: "1 \<le> m'" "m' \<le> 12" "1 \<le> d'" "d' \<le> days_in_month y' m'"
    by simp_all
  from ymd2ord_prev [OF assms] n have "ymd2ord y' m' d' = ymd2ord y m d - 1" by simp
  with ord2ymd_ymd2ord [OF v] n show ?thesis by simp
qed

lemma dby_mono: "y \<le> z \<Longrightarrow> days_before_year y \<le> days_before_year z"
proof (induction z rule: int_ge_induct)
  case base
  show ?case by simp
next
  case (step i)
  then show ?case using dby_step [of i] by (simp split: if_splits)
qed

lemma ymd2ord_range:
  assumes "valid_date y m d"
  shows "1 \<le> ymd2ord y m d" "ymd2ord y m d \<le> MAXORDINAL"
proof -
  from assms have v: "1 \<le> y" "y \<le> 9999" "1 \<le> m" "m \<le> 12" "1 \<le> d" "d \<le> days_in_month y m"
    by (simp_all add: valid_date_def MINYEAR_def MAXYEAR_def)
  have lo: "days_before_year 1 \<le> days_before_year y" using v(1) by (rule dby_mono)
  have d1: "days_before_year 1 = 0" by (simp add: days_before_year_def)
  have hi: "days_before_year (y + 1) \<le> days_before_year 10000" using v(2) by (intro dby_mono) simp
  have d10000: "days_before_year 10000 = 3652059" by (simp add: days_before_year_def)
  from yday_bounds [OF v(3-6)] have r: "0 \<le> days_before_month y m + d - 1"
     "days_before_month y m + d - 1 \<le> 364 + (if is_leap y then 1 else 0)" by simp_all
  show "1 \<le> ymd2ord y m d" using lo d1 r(1) by (simp add: ymd2ord_def)
  show "ymd2ord y m d \<le> MAXORDINAL" using hi d10000 r(2) dby_step [of y]
    by (simp add: ymd2ord_def MAXORDINAL_def split: if_splits)
qed

lemma ascii_digit_isdigit: "decimal s \<Longrightarrow> s \<noteq> [] \<Longrightarrow> isdigit s"
  by (auto simp: decimal_def isdigit_def char_isdigit_def list_all_iff)

lemma decimal_take: "decimal s \<Longrightarrow> decimal (take n s)"
  unfolding decimal_def list_all_iff by (auto dest: in_set_takeD)

lemma decimal_drop: "decimal s \<Longrightarrow> decimal (drop n s)"
  unfolding decimal_def list_all_iff by (auto dest: in_set_dropD)

lemma py_int_decimal: "decimal s \<Longrightarrow> s \<noteq> [] \<Longrightarrow> \<exists>v. py_int s = Inr v"
  by (simp add: py_int_def decimal_def)

lemma mk_datetime_ok:
  "valid_date y m d \<Longrightarrow> mk_datetime y m d z =
     Inr \<lparr>year = y, month = m, day = d, hour = 0, minute = 0, second = 0, microsecond = 0, tzinfo = z\<rparr>"
  by (simp add: mk_datetime_def valid_date_def)

lemma add_days_succ:
  assumes "valid_date (year t) (month t) (day t)"
    and "(year t, month t, day t) \<noteq> (9999, 12, 31)"
  shows "add_days t 1 = (case next_date (year t) (month t) (day t) of
           (y, m, d) \<Rightarrow> Inr (t\<lparr>year := y, month := m, day := d\<rparr>))"
proof -
  from assms(1) have v: "1 \<le> month t" "month t \<le> 12" "1 \<le> day t" "day t \<le> days_in_month (year t) (month t)"
    and y: "1 \<le> year t" "year t \<le> 9999"
    by (simp_all add: valid_date_def MINYEAR_def MAXYEAR_def)
  obtain y' m' d' where n: "next_date (year t) (month t) (day t) = (y', m', d')"
    by (cases "next_date (year t) (month t) (day t)")
  from valid_next [OF v] n have v': "1 \<le> m'" "m' \<le> 12" "1 \<le> d'" "d' \<le> days_in_month y' m'"
    by simp_all
  have y': "1 \<le> y'" "y' \<le> 9999"
    using n y assms(2) v
    by (auto simp: next_date_def dim_12 split: if_splits)
  have vd: "valid_date y' m' d'" using v' y' by (simp add: valid_date_def MINYEAR_def MAXYEAR_def)
  have o: "ymd2ord y' m' d' = ymd2ord (year t) (month t) (day t) + 1"
    using ymd2ord_next [OF v] n by simp
  from ymd2ord_range [OF vd] o have r: "0 < ymd2ord (year t) (month t) (day t) + 1"
    "ymd2ord (year t) (month t) (day t) + 1 \<le> MAXORDINAL" by simp_all
  show ?thesis
    using r ord2ymd_succ [OF v] n by (simp add: add_days_def Let_def)
qed

lemma add_days_pred:
  assumes "valid_date (year t) (month t) (day t)"
    and "(year t, month t, day t) \<noteq> (1, 1, 1)"
  shows "add_days t (- 1) = (case prev_date (year t) (month t) (day t) of
           (y, m, d) \<Rightarrow> Inr (t\<lparr>year := y, month := m, day := d\<rparr>))"
proof -
  from assms(1) have v: "1 \<le> month t" "month t \<le> 12" "1 \<le> day t" "day t \<le> days_in_month (year t) (month t)"
    and y: "1 \<le> year t" "year t \<le> 9999"
    by (simp_all add: valid_date_def MINYEAR_def MAXYEAR_def)
  obtain y' m' d' where n: "prev_date (year t) (month t) (day t) = (y', m', d')"
    by (cases "prev_date (year t) (month t) (day t)")
  from valid_prev [OF v] n have v': "1 \<le> m'" "m' \<le> 12" "1 \<le> d'" "d' \<le> days_in_month y' m'"
    by simp_all
  have y': "1 \<le> y'" "y' \<le> 9999"
    using n y assms(2) v
    by (auto simp: prev_date_def split: if_splits)
  have vd: "valid_date y' m' d'" using v' y' by (simp add: valid_date_def MINYEAR_def MAXYEAR_def)
  have o: "ymd2ord y' m' d' = ymd2ord (year t) (month t) (day t) - 1"
    using ymd2ord_prev [OF v] n by simp
  from ymd2ord_range [OF vd] o have r: "0 < ymd2ord (year t) (month t) (day t) - 1"
    "ymd2ord (year t) (month t) (day t) - 1 \<le> MAXORDINAL" by simp_all
  show ?thesis
    using r ord2ymd_pred [OF v] n by (simp add: add_days_def Let_def)
qed

subsection \<open>The date-key resolver\<close>

lemma py_int_decimal_value: "decimal s \<Longrightarrow> s \<noteq> [] \<Longrightarrow> py_int s = Inr (decimal_value s)"
  by (simp add: py_int_def decimal_def)

lemma ebind_Inr [simp]: "ebind (Inr v) f = f v"
  by (simp add: ebind_def)

lemma ebind_Inl [simp]: "ebind (Inl e) f = Inl e"
  by (simp add: ebind_def)

lemma midnight_eq: "midnight (y, m, d) =
   \<lparr>year = y, month = m, day = d, hour = 0, minute = 0, second = 0, microsecond = 0, tzinfo = None\<rparr>"
  by (simp add: midnight_def)

lemma resolve_year:
  assumes "decimal k" "length k = 4" "valid_period (Year (decimal_value k))"
    "decimal_value k \<noteq> 9999"
  shows "resolve_date_key k = Inr (midnight (decimal_value k, 1, 1), midnight (next_date (decimal_value k) 12 31))"
proof -
  define y where "y = decimal_value k"
  have ne: "k \<noteq> []" using assms(2) by auto
  have dig: "isdigit k" using assms(1) ne by (rule ascii_digit_isdigit)
  have pi: "py_int k = Inr y" using assms(1) ne by (simp add: py_int_decimal_value y_def)
  have v1: "valid_date y 1 1" using assms(3) by (simp add: valid_period_def valid_ymd_def y_def)
  then have v2: "valid_date (y + 1) 1 1" using assms(4)
    by (simp add: valid_date_def MINYEAR_def MAXYEAR_def y_def days_in_month_def DAYS_IN_MONTH_def)
  have nd: "next_date y 12 31 = (y + 1, 1, 1)" by (simp add: next_date_def dim_12)
  show ?thesis
    unfolding y_def [symmetric] nd
    by (simp add: resolve_date_key_def assms(2) dig pi mk_datetime_ok [OF v1] mk_datetime_ok [OF v2] midnight_eq)
qed

lemma resolve_month:
  assumes "decimal k" "length k = 6"
    "valid_period (Month (decimal_value (take 4 k)) (decimal_value (drop 4 k)))"
    "(decimal_value (take 4 k), decimal_value (drop 4 k)) \<noteq> (9999, 12)"
  shows "resolve_date_key k =
    Inr (midnight (decimal_value (take 4 k), decimal_value (drop 4 k), 1),
         midnight (next_date (decimal_value (take 4 k)) (decimal_value (drop 4 k))
                     (days_in_month (decimal_value (take 4 k)) (decimal_value (drop 4 k)))))"
proof -
  define y where "y = decimal_value (take 4 k)"
  define m where "m = decimal_value (drop 4 k)"
  have ne: "k \<noteq> []" using assms(2) by auto
  have dig: "isdigit k" using assms(1) ne by (rule ascii_digit_isdigit)
  have "take 4 k \<noteq> []" using assms(2) by auto
  then have pi: "py_int (take 4 k) = Inr y"
    using decimal_take [OF assms(1)] by (simp add: py_int_decimal_value y_def)
  have t2: "take 2 (drop 4 k) = drop 4 k" using assms(2) by simp
  have "drop 4 k \<noteq> []" using assms(2) by auto
  then have pm: "py_int (drop 4 k) = Inr m"
    using decimal_drop [OF assms(1)] by (simp add: py_int_decimal_value m_def)
  have v1: "valid_date y m 1" using assms(3) by (simp add: valid_period_def valid_ymd_def y_def m_def)
  then have mr: "1 \<le> m" "m \<le> 12" and yr: "1 \<le> y" "y \<le> 9999"
    by (simp_all add: valid_date_def MINYEAR_def MAXYEAR_def)
  show ?thesis
  proof (cases "m = 12")
    case True
    with assms(4) have "y \<noteq> 9999" by (simp add: y_def m_def)
    with yr have v2: "valid_date (y + 1) 1 1"
      by (simp add: valid_date_def MINYEAR_def MAXYEAR_def days_in_month_def DAYS_IN_MONTH_def)
    have nd: "next_date y 12 (days_in_month y 12) = (y + 1, 1, 1)" by (simp add: next_date_def)
    have v1': "valid_date y 12 1" using v1 True by simp
    show ?thesis
      unfolding y_def [symmetric] m_def [symmetric] using nd True
      by (simp add: resolve_date_key_def assms(2) dig pi pm t2 mk_datetime_ok [OF v1']
          mk_datetime_ok [OF v2] midnight_eq)
  next
    case False
    with mr have m11: "m + 1 \<le> 12" "m < 12" by simp_all
    have "28 \<le> days_in_month y (m + 1)" using mr m11 by (intro dim_pos) simp_all
    with yr mr m11 have v2: "valid_date y (m + 1) 1"
      by (simp add: valid_date_def MINYEAR_def MAXYEAR_def)
    have nd: "next_date y m (days_in_month y m) = (y, m + 1, 1)" using m11 by (simp add: next_date_def)
    show ?thesis
      unfolding y_def [symmetric] m_def [symmetric] using nd False
      by (simp add: resolve_date_key_def assms(2) dig pi pm t2 mk_datetime_ok [OF v1]
          mk_datetime_ok [OF v2] midnight_eq)
  qed
qed

lemma resolve_day:
  assumes "decimal k" "length k = 8"
    "valid_period (Day (decimal_value (take 4 k)) (decimal_value (take 2 (drop 4 k))) (decimal_value (drop 6 k)))"
    "(decimal_value (take 4 k), decimal_value (take 2 (drop 4 k)), decimal_value (drop 6 k)) \<noteq> (9999, 12, 31)"
  shows "resolve_date_key k =
    Inr (midnight (decimal_value (take 4 k), decimal_value (take 2 (drop 4 k)), decimal_value (drop 6 k)),
         midnight (next_date (decimal_value (take 4 k)) (decimal_value (take 2 (drop 4 k)))
                     (decimal_value (drop 6 k))))"
proof -
  define y where "y = decimal_value (take 4 k)"
  define m where "m = decimal_value (take 2 (drop 4 k))"
  define d where "d = decimal_value (drop 6 k)"
  have ne: "k \<noteq> []" using assms(2) by auto
  have dig: "isdigit k" using assms(1) ne by (rule ascii_digit_isdigit)
  have "take 4 k \<noteq> []" using assms(2) by auto
  then have pi: "py_int (take 4 k) = Inr y"
    using decimal_take [OF assms(1)] by (simp add: py_int_decimal_value y_def)
  have "take 2 (drop 4 k) \<noteq> []" using assms(2) by auto
  then have pm: "py_int (take 2 (drop 4 k)) = Inr m"
    using decimal_take [OF decimal_drop [OF assms(1)]] by (simp add: py_int_decimal_value m_def)
  have t2: "take 2 (drop 6 k) = drop 6 k" using assms(2) by simp
  have "drop 6 k \<noteq> []" using assms(2) by auto
  then have pd: "py_int (drop 6 k) = Inr d"
    using decimal_drop [OF assms(1)] by (simp add: py_int_decimal_value d_def)
  have v1: "valid_date y m d" using assms(3) by (simp add: valid_period_def valid_ymd_def y_def m_def d_def)
  define t where "t = midnight (y, m, d)"
  have tf: "year t = y" "month t = m" "day t = d" by (simp_all add: t_def midnight_def)
  have ad: "add_days t 1 = (case next_date y m d of (y', m', d') \<Rightarrow> Inr (t\<lparr>year := y', month := m', day := d'\<rparr>))"
    using add_days_succ [of t] v1 assms(4) by (simp add: tf y_def m_def d_def)
  obtain y' m' d' where nd: "next_date y m d = (y', m', d')" by (cases "next_date y m d")
  have mk: "mk_datetime y m d None = Inr t" using mk_datetime_ok [OF v1] by (simp add: t_def midnight_eq)
  show ?thesis
    unfolding y_def [symmetric] m_def [symmetric] d_def [symmetric]
    by (simp add: resolve_date_key_def assms(2) dig pi pm pd t2 mk ad nd) (simp add: t_def midnight_eq)
qed

text \<open>
  C1 (as amended). For every digits-only date key of 4, 6 or 8 digits that denotes a valid
  year, month or day, other than the keys whose period ends with 9999-12-31, the resolver
  returns the range whose start is the first instant of the period's first day and whose
  end is the first instant of the day after the period's last day, the day after being
  taken by the calendar's rules (December is followed by January of the next year,
  28 February by the 29th exactly in leap years).
\<close>

theorem resolve_date_key_period:
  assumes "key_period k = Some p" "valid_period p" "last_day p \<noteq> (9999, 12, 31)"
  shows "resolve_date_key k = Inr (midnight (first_day p), midnight (day_after (last_day p)))"
proof -
  from assms(1) have dec: "decimal k" by (auto simp: key_period_def split: if_splits)
  from assms(1) consider
      (year) "length k = 4" "p = Year (decimal_value k)"
    | (month) "length k = 6" "p = Month (decimal_value (take 4 k)) (decimal_value (drop 4 k))"
    | (day) "length k = 8"
        "p = Day (decimal_value (take 4 k)) (decimal_value (take 2 (drop 4 k))) (decimal_value (drop 6 k))"
    by (auto simp: key_period_def split: if_splits)
  then show ?thesis
  proof cases
    case year
    with assms(2,3) resolve_year [OF dec year(1)] show ?thesis
      by (simp add: day_after_def)
  next
    case month
    with assms(2,3) resolve_month [OF dec month(1)] show ?thesis
      by (auto simp: day_after_def valid_period_def valid_ymd_def dim_12)
  next
    case day
    with assms(2,3) resolve_day [OF dec day(1)] show ?thesis
      by (simp add: day_after_def)
  qed
qed

text \<open>The examples of the specification, a leap day and a common-year February.\<close>

theorem resolve_date_key_period_witness:
  "resolve_date_key ''2024'' = Inr (midnight (2024, 1, 1), midnight (2025, 1, 1))
   \<and> resolve_date_key ''202412'' = Inr (midnight (2024, 12, 1), midnight (2025, 1, 1))
   \<and> resolve_date_key ''20241205'' = Inr (midnight (2024, 12, 5), midnight (2024, 12, 6))
   \<and> resolve_date_key ''20240228'' = Inr (midnight (2024, 2, 28), midnight (2024, 2, 29))
   \<and> resolve_date_key ''20230228'' = Inr (midnight (2023, 2, 28), midnight (2023, 3, 1))"
proof -
  have k1: "key_period ''2024'' = Some (Year 2024)" by code_simp
  have k2: "key_period ''202412'' = Some (Month 2024 12)" by code_simp
  have k3: "key_period ''20241205'' = Some (Day 2024 12 5)" by code_simp
  have k4: "key_period ''20240228'' = Some (Day 2024 2 28)" by code_simp
  have k5: "key_period ''20230228'' = Some (Day 2023 2 28)" by code_simp
  have v1: "valid_period (Year 2024)" by code_simp
  have v2: "valid_period (Month 2024 12)" by code_simp
  have v3: "valid_period (Day 2024 12 5)" by code_simp
  have v4: "valid_period (Day 2024 2 28)" by code_simp
  have v5: "valid_period (Day 2023 2 28)" by code_simp
  have d1: "day_after (last_day (Year 2024)) = (2025, 1, 1)" by code_simp
  have d2: "day_after (last_day (Month 2024 12)) = (2025, 1, 1)" by code_simp
  have d3: "day_after (last_day (Day 2024 12 5)) = (2024, 12, 6)" by code_simp
  have d4: "day_after (last_day (Day 2024 2 28)) = (2024, 2, 29)" by code_simp
  have d5: "day_after (last_day (Day 2023 2 28)) = (2023, 3, 1)" by code_simp
  have n1: "last_day (Year 2024) \<noteq> (9999, 12, 31)" by simp
  have n2: "last_day (Month 2024 12) \<noteq> (9999, 12, 31)" by simp
  have n3: "last_day (Day 2024 12 5) \<noteq> (9999, 12, 31)" by simp
  have n4: "last_day (Day 2024 2 28) \<noteq> (9999, 12, 31)" by simp
  have n5: "last_day (Day 2023 2 28) \<noteq> (9999, 12, 31)" by simp
  show ?thesis
    using resolve_date_key_period [OF k1 v1 n1, unfolded d1]
      resolve_date_key_period [OF k2 v2 n2, unfolded d2]
      resolve_date_key_period [OF k3 v3 n3, unfolded d3]
      resolve_date_key_period [OF k4 v4 n4, unfolded d4]
      resolve_date_key_period [OF k5 v5 n5, unfolded d5]
    by simp
qed

text \<open>
  C1 as stated fails at the last year: \<open>9999\<close> is a valid year, and the resolver raises
  when it builds the first instant of year 10000.
\<close>

theorem resolve_date_key_last_year_counterexample:
  "key_period ''9999'' = Some (Year 9999) \<and> valid_period (Year 9999)
   \<and> resolve_date_key ''9999'' = Inl (ValueError ''year is out of range'')"
  by code_simp

subsection \<open>Ranges of one and of two keys\<close>

lemma mk_datetime_Inr:
  assumes "mk_datetime y m d z = Inr t"
  shows "valid_date y m d"
    and "t = \<lparr>year = y, month = m, day = d, hour = 0, minute = 0, second = 0, microsecond = 0, tzinfo = z\<rparr>"
  using assms by (auto simp: mk_datetime_def valid_date_def split: if_splits)

lemma ebind_eq_Inr: "ebind r f = Inr v \<longleftrightarrow> (\<exists>x. r = Inr x \<and> f x = Inr v)"
  by (cases r) (simp_all add: ebind_def)

lemma dt_less_ymd:
  "dt_less a b \<longleftrightarrow>
     year a < year b \<or> (year a = year b \<and> (month a < month b \<or> (month a = month b \<and>
     (day a < day b \<or> (day a = day b \<and> (hour a < hour b \<or> (hour a = hour b \<and>
     (minute a < minute b \<or> (minute a = minute b \<and> (second a < second b \<or> (second a = second b \<and>
      microsecond a < microsecond b)))))))))))"
  by (simp add: dt_less_def dt_fields_def)

lemma add_days_one_Inr:
  assumes "valid_date (year t) (month t) (day t)" "add_days t 1 = Inr e"
  shows "e = (case next_date (year t) (month t) (day t) of (y, m, d) \<Rightarrow> t\<lparr>year := y, month := m, day := d\<rparr>)"
proof -
  from assms(1) have v: "1 \<le> month t" "month t \<le> 12" "1 \<le> day t" "day t \<le> days_in_month (year t) (month t)"
    by (simp_all add: valid_date_def)
  from assms(2) ord2ymd_succ [OF v] show ?thesis
    by (auto simp: add_days_def Let_def split: if_splits prod.splits)
qed

lemma next_date_greater:
  assumes "next_date y m d = (y', m', d')" "1 \<le> m" "1 \<le> d"
  shows "y < y' \<or> (y = y' \<and> (m < m' \<or> (m = m' \<and> d < d')))"
  using assms by (auto simp: next_date_def split: if_splits)

lemma resolve_date_key_ordered:
  assumes "resolve_date_key k = Inr (s, e)"
  shows "dt_less s e"
proof -
  from assms have shape: "length k = 4 \<or> length k = 6 \<or> length k = 8"
    by (auto simp: resolve_date_key_def split: if_splits)
  from assms obtain y where y: "py_int (take 4 k) = Inr y"
    by (auto simp: resolve_date_key_def ebind_eq_Inr split: if_splits)
  from shape consider (four) "length k = 4" | (six) "length k = 6" | (eight) "length k = 8" by blast
  then show ?thesis
  proof cases
    case four
    with assms y obtain "mk_datetime y 1 1 None = Inr s" "mk_datetime (y + 1) 1 1 None = Inr e"
      by (auto simp: resolve_date_key_def ebind_eq_Inr split: if_splits)
    then show ?thesis by (auto dest!: mk_datetime_Inr(2) simp: dt_less_ymd)
  next
    case six
    with assms y obtain m where m: "mk_datetime y m 1 None = Inr s"
       "(m = 12 \<and> mk_datetime (y + 1) 1 1 None = Inr e) \<or> (m \<noteq> 12 \<and> mk_datetime y (m + 1) 1 None = Inr e)"
      by (auto simp: resolve_date_key_def ebind_eq_Inr split: if_splits)
    then show ?thesis by (auto dest!: mk_datetime_Inr(2) simp: dt_less_ymd)
  next
    case eight
    with assms y obtain m d where md: "mk_datetime y m d None = Inr s" "add_days s 1 = Inr e"
      by (auto simp: resolve_date_key_def ebind_eq_Inr split: if_splits)
    from mk_datetime_Inr [OF md(1)] have v: "valid_date y m d"
      and s: "year s = y" "month s = m" "day s = d" by simp_all
    obtain y' m' d' where n: "next_date y m d = (y', m', d')" by (cases "next_date y m d")
    from add_days_one_Inr [of s e] v s md(2) n have e: "e = s\<lparr>year := y', month := m', day := d'\<rparr>"
      by simp
    from v have "1 \<le> m" "1 \<le> d" by (simp_all add: valid_date_def)
    from next_date_greater [OF n this] show ?thesis
      by (auto simp: dt_less_ymd e s)
  qed
qed

lemma resolve_date_key_nonempty: "resolve_date_key k = Inr r \<Longrightarrow> k \<noteq> []"
  by (auto simp: resolve_date_key_def)

lemma range_bounds_single:
  assumes "resolve_date_key a = Inr (s1, e1)" "\<not> truthy other"
  shows "range_bounds (Some a) other = Inr (Some s1, Some e1)"
    and "range_bounds other (Some a) = Inr (Some s1, Some e1)"
proof -
  have a: "a \<noteq> []" using assms(1) by (rule resolve_date_key_nonempty)
  have lt: "dt_less s1 e1" using assms(1) by (rule resolve_date_key_ordered)
  show "range_bounds (Some a) other = Inr (Some s1, Some e1)"
    using assms a lt by (cases other) (simp_all add: range_bounds_def truthy_def)
  show "range_bounds other (Some a) = Inr (Some s1, Some e1)"
    using assms a lt by (cases other) (simp_all add: range_bounds_def truthy_def)
qed

lemma range_bounds_both:
  assumes "resolve_date_key a = Inr (s1, e1)" "resolve_date_key b = Inr (s2, e2)"
  shows "range_bounds (Some a) (Some b) =
           (if dt_less s1 e2 then Inr (Some s1, Some e2) else Inl (ValueError INVALID_RANGE))"
proof -
  have a: "a \<noteq> []" using assms(1) by (rule resolve_date_key_nonempty)
  have b: "b \<noteq> []" using assms(2) by (rule resolve_date_key_nonempty)
  show ?thesis using a b assms by (simp add: range_bounds_def truthy_def)
qed

lemma range_bounds_both_Inr:
  assumes "range_bounds (Some a) (Some b) = Inr r" "a \<noteq> []" "b \<noteq> []"
  shows "\<exists>s1 e1 s2 e2. resolve_date_key a = Inr (s1, e1) \<and> resolve_date_key b = Inr (s2, e2)
           \<and> r = (Some s1, Some e2)"
proof -
  from assms obtain s1 e1 where ra: "resolve_date_key a = Inr (s1, e1)"
    by (cases "resolve_date_key a") (auto simp: range_bounds_def truthy_def)
  from assms ra obtain s2 e2 where rb: "resolve_date_key b = Inr (s2, e2)"
    by (cases "resolve_date_key b") (auto simp: range_bounds_def truthy_def)
  from assms(1) range_bounds_both [OF ra rb] have "r = (Some s1, Some e2)"
    by (simp split: if_splits)
  with ra rb show ?thesis by blast
qed

text \<open>
  C2. When one key is supplied (the other absent or empty), the range is that key's own
  period, both bounds; when both are supplied and a range is returned, its start is the
  start of the start key's period and its end is the end of the end key's period,
  whatever the two granularities.
\<close>

theorem range_bounds_of_keys:
  "(resolve_date_key a = Inr (s1, e1) \<and> \<not> truthy other \<longrightarrow>
      range_bounds (Some a) other = Inr (Some s1, Some e1)
      \<and> range_bounds other (Some a) = Inr (Some s1, Some e1))
   \<and> (resolve_date_key a = Inr (s1, e1) \<and> resolve_date_key b = Inr (s2, e2) \<and> dt_less s1 e2 \<longrightarrow>
      range_bounds (Some a) (Some b) = Inr (Some s1, Some e2))
   \<and> (a \<noteq> [] \<and> b \<noteq> [] \<and> range_bounds (Some a) (Some b) = Inr r \<longrightarrow>
      (\<exists>s1 e1 s2 e2. resolve_date_key a = Inr (s1, e1) \<and> resolve_date_key b = Inr (s2, e2)
         \<and> r = (Some s1, Some e2)))"
proof (intro conjI impI)
  assume h: "resolve_date_key a = Inr (s1, e1) \<and> \<not> truthy other"
  then show "range_bounds (Some a) other = Inr (Some s1, Some e1)"
    by (simp add: range_bounds_single(1))
  from h show "range_bounds other (Some a) = Inr (Some s1, Some e1)"
    by (simp add: range_bounds_single(2))
next
  assume "resolve_date_key a = Inr (s1, e1) \<and> resolve_date_key b = Inr (s2, e2) \<and> dt_less s1 e2"
  then show "range_bounds (Some a) (Some b) = Inr (Some s1, Some e2)"
    by (simp add: range_bounds_both)
next
  assume "a \<noteq> [] \<and> b \<noteq> [] \<and> range_bounds (Some a) (Some b) = Inr r"
  then show "\<exists>s1 e1 s2 e2. resolve_date_key a = Inr (s1, e1) \<and> resolve_date_key b = Inr (s2, e2)
         \<and> r = (Some s1, Some e2)"
    using range_bounds_both_Inr [of a b r] by blast
qed

text \<open>The scenario of the specification (\<open>202412\<close> and no end key), and a year key paired
  with a day key.\<close>

theorem range_bounds_of_keys_witness:
  "range_bounds (Some ''202412'') None
     = Inr (Some (midnight (2024, 12, 1)), Some (midnight (2025, 1, 1)))
   \<and> range_bounds None (Some ''202412'')
     = Inr (Some (midnight (2024, 12, 1)), Some (midnight (2025, 1, 1)))
   \<and> range_bounds (Some ''2024'') (Some ''20240101'')
     = Inr (Some (midnight (2024, 1, 1)), Some (midnight (2024, 1, 2)))"
proof -
  have a: "resolve_date_key ''202412'' = Inr (midnight (2024, 12, 1), midnight (2025, 1, 1))"
    by code_simp
  have b: "resolve_date_key ''2024'' = Inr (midnight (2024, 1, 1), midnight (2025, 1, 1))"
    by code_simp
  have c: "resolve_date_key ''20240101'' = Inr (midnight (2024, 1, 1), midnight (2024, 1, 2))"
    by code_simp
  have n: "\<not> truthy None" by (simp add: truthy_def)
  have lt: "dt_less (midnight (2024, 1, 1)) (midnight (2024, 1, 2))" by code_simp
  have single: "range_bounds (Some ''202412'') None
       = Inr (Some (midnight (2024, 12, 1)), Some (midnight (2025, 1, 1)))
     \<and> range_bounds None (Some ''202412'')
       = Inr (Some (midnight (2024, 12, 1)), Some (midnight (2025, 1, 1)))"
    using range_bounds_of_keys [of "''202412''" "midnight (2024, 12, 1)"
        "midnight (2025, 1, 1)" None] a n
    by blast
  have both: "range_bounds (Some ''2024'') (Some ''20240101'')
       = Inr (Some (midnight (2024, 1, 1)), Some (midnight (2024, 1, 2)))"
    using range_bounds_of_keys [of "''2024''" "midnight (2024, 1, 1)" "midnight (2025, 1, 1)" None
        "''20240101''" "midnight (2024, 1, 1)" "midnight (2024, 1, 2)"] b c lt
    by blast
  from single both show ?thesis by blast
qed

text \<open>
  The order check of the two HMI data services. Whenever both keys are supplied and resolve,
  and the start of the start key's period is not earlier than the end of the end key's
  period, no range is returned: the \<^verbatim>\<open>ValueError\<close> "start_key must represent a period
  earlier than end_key" is raised.
\<close>

lemma range_bounds_invalid_range:
  "resolve_date_key a = Inr (s1, e1) \<Longrightarrow> resolve_date_key b = Inr (s2, e2) \<Longrightarrow>
   \<not> dt_less s1 e2 \<Longrightarrow> range_bounds (Some a) (Some b) = Inl (ValueError INVALID_RANGE)"
  by (simp add: range_bounds_both)

text \<open>The days 5 and 4 December 2024 as digits-only keys: the order check refuses the
  pair.\<close>

lemma range_bounds_invalid_range_example:
  "range_bounds (Some ''20241205'') (Some ''20241204'')
     = Inl (ValueError ''start_key must represent a period earlier than end_key'')"
proof -
  have a: "resolve_date_key ''20241205'' = Inr (midnight (2024, 12, 5), midnight (2024, 12, 6))"
    by code_simp
  have b: "resolve_date_key ''20241204'' = Inr (midnight (2024, 12, 4), midnight (2024, 12, 5))"
    by code_simp
  have n: "\<not> dt_less (midnight (2024, 12, 5)) (midnight (2024, 12, 5))" by code_simp
  from range_bounds_invalid_range [OF a b n] show ?thesis by (simp add: INVALID_RANGE_def)
qed

text \<open>
  The same days written \<open>2024-12-05\<close> and \<open>2024-12-04\<close> are no date keys of the two HMI data
  services: the pair is refused for the format of its keys, before any bounds are compared.
\<close>

lemma range_bounds_dashed:
  "range_bounds (Some ''2024-12-05'') (Some ''2024-12-04'')
     = Inl (ValueError ''date_key must be numeric in formats YYYY, YYYYMM, or YYYYMMDD'')
   \<and> range_bounds (Some ''2024-12-05'') (Some ''2024-12-04'') \<noteq> Inl (ValueError INVALID_RANGE)"
  by code_simp

lemma fetch_by_pid_and_range_single:
  assumes "resolve_date_key k = Inr (s, e)"
  shows "fetch_banb_data_by_pid_and_range q pid limit (Some k) None db_alias
           = q pid limit db_alias (Some s) (Some e)"
    and "fetch_rtf_data_by_pid_and_range q pid limit (Some k) None db_alias
           = q pid limit db_alias (Some s) (Some e)"
  using range_bounds_single(1) [OF assms, of None]
  by (simp_all add: fetch_banb_data_by_pid_and_range_def fetch_rtf_data_by_pid_and_range_def
      truthy_def)

text \<open>
  C3, the code at the failing input. \<^verbatim>\<open>_resolve_cycle_start_range\<close> of the anomaly service
  takes the keys \<open>2024-12-05\<close> and \<open>2024-12-04\<close>, start after end, and compares nothing: with
  every library that reads the two keys as the ISO-8601 dates they are, it returns a range,
  one that starts and ends at the same instant, 2024-12-05T00:00 in the zone of the plant.
  No exception is raised.
\<close>

theorem resolve_cycle_start_range_unordered:
  assumes "fromisoformat lib ''2024-12-05'' = Inr (midnight (2024, 12, 5))"
    and "fromisoformat lib ''2024-12-04'' = Inr (midnight (2024, 12, 4))"
  shows "resolve_cycle_start_range lib (Some ''2024-12-05'') (Some ''2024-12-04'')
           = Inr (Some ((midnight (2024, 12, 5))\<lparr>tzinfo := Some DEFAULT_TZ\<rparr>),
                  Some ((midnight (2024, 12, 5))\<lparr>tzinfo := Some DEFAULT_TZ\<rparr>))"
proof -
  have s1: "strip ''2024-12-05'' = ''2024-12-05''" by code_simp
  have s2: "strip ''2024-12-04'' = ''2024-12-04''" by code_simp
  have r1: "replace ''Z'' ''+00:00'' ''2024-12-05'' = ''2024-12-05''" by code_simp
  have r2: "replace ''Z'' ''+00:00'' ''2024-12-04'' = ''2024-12-04''" by code_simp
  have p1: "parse_cycle_start_date lib ''2024-12-05''
              = Inr ((midnight (2024, 12, 5))\<lparr>tzinfo := Some DEFAULT_TZ\<rparr>)"
    unfolding parse_cycle_start_date_def Let_def s1 r1 assms(1)
    by (simp add: except_ValueError_def midnight_def)
  have p2: "parse_cycle_start_date lib ''2024-12-04''
              = Inr ((midnight (2024, 12, 4))\<lparr>tzinfo := Some DEFAULT_TZ\<rparr>)"
    unfolding parse_cycle_start_date_def Let_def s2 r2 assms(2)
    by (simp add: except_ValueError_def midnight_def)
  have c1: "count_char ''2024-12-05'' CHR ''-'' = 2" by code_simp
  have c2: "count_char ''2024-12-04'' CHR ''-'' = 2" by code_simp
  have d1: "\<not> isdigit ''2024-12-05''" by code_simp
  have d2: "\<not> isdigit ''2024-12-04''" by code_simp
  have m1: "mk_datetime 2024 12 5 (Some DEFAULT_TZ)
              = Inr ((midnight (2024, 12, 5))\<lparr>tzinfo := Some DEFAULT_TZ\<rparr>)"
    by code_simp
  have a2: "add_days ((midnight (2024, 12, 4))\<lparr>tzinfo := Some DEFAULT_TZ\<rparr>) 1
              = Inr ((midnight (2024, 12, 5))\<lparr>tzinfo := Some DEFAULT_TZ\<rparr>)"
    by code_simp
  have f1: "year ((midnight (2024, 12, 5))\<lparr>tzinfo := Some DEFAULT_TZ\<rparr>) = 2024"
    "month ((midnight (2024, 12, 5))\<lparr>tzinfo := Some DEFAULT_TZ\<rparr>) = 12"
    "day ((midnight (2024, 12, 5))\<lparr>tzinfo := Some DEFAULT_TZ\<rparr>) = 5"
    "tzinfo_or_default ((midnight (2024, 12, 5))\<lparr>tzinfo := Some DEFAULT_TZ\<rparr>) = Some DEFAULT_TZ"
    by (simp_all add: midnight_def tzinfo_or_default_def)
  show ?thesis
    unfolding resolve_cycle_start_range_def
    by (simp add: p1 p2 s1 s2 c1 c2 d1 d2 f1 m1 a2 Let_def)
qed

text \<open>A fragment of the library that reads the two keys, and the range it leads to: its
  start is not earlier than its end.\<close>

theorem resolve_cycle_start_range_unordered_witness:
  "resolve_cycle_start_range
     \<lparr>fromisoformat = (\<lambda>x.
          if x = ''2024-12-05'' then Inr (midnight (2024, 12, 5))
          else if x = ''2024-12-04'' then Inr (midnight (2024, 12, 4))
          else Inl (ValueError ''Invalid isoformat string'')),
      strptime = (\<lambda>x fmt. Inl (ValueError ''time data does not match format''))\<rparr>
     (Some ''2024-12-05'') (Some ''2024-12-04'')
   = Inr (Some ((midnight (2024, 12, 5))\<lparr>tzinfo := Some DEFAULT_TZ\<rparr>),
          Some ((midnight (2024, 12, 5))\<lparr>tzinfo := Some DEFAULT_TZ\<rparr>))
   \<and> \<not> dt_less ((midnight (2024, 12, 5))\<lparr>tzinfo := Some DEFAULT_TZ\<rparr>)
                ((midnight (2024, 12, 5))\<lparr>tzinfo := Some DEFAULT_TZ\<rparr>)"
proof -
  have n: "\<not> dt_less ((midnight (2024, 12, 5))\<lparr>tzinfo := Some DEFAULT_TZ\<rparr>)
                ((midnight (2024, 12, 5))\<lparr>tzinfo := Some DEFAULT_TZ\<rparr>)"
    by code_simp
  let ?lib = "\<lparr>fromisoformat = (\<lambda>x.
          if x = ''2024-12-05'' then Inr (midnight (2024, 12, 5))
          else if x = ''2024-12-04'' then Inr (midnight (2024, 12, 4))
          else Inl (ValueError ''Invalid isoformat string'')),
      strptime = (\<lambda>x fmt. Inl (ValueError ''time data does not match format''))\<rparr>"
  have a: "fromisoformat ?lib ''2024-12-05'' = Inr (midnight (2024, 12, 5))" by simp
  have b: "fromisoformat ?lib ''2024-12-04'' = Inr (midnight (2024, 12, 4))" by simp
  from resolve_cycle_start_range_unordered [OF a b] n show ?thesis by blast
qed

subsection \<open>The accepted shapes\<close>

lemma ebind_eq_Inl: "ebind r f = Inl e \<longleftrightarrow> r = Inl e \<or> (\<exists>x. r = Inr x \<and> f x = Inl e)"
  by (cases r) (simp_all add: ebind_def)

lemma py_int_error: "py_int s = Inl e \<Longrightarrow> e \<noteq> ValueError INVALID_DATE_KEY"
  by (auto simp: py_int_def INVALID_DATE_KEY_def split: if_splits)

lemma mk_datetime_error: "mk_datetime y m d z = Inl e \<Longrightarrow> e \<noteq> ValueError INVALID_DATE_KEY"
  by (auto simp: mk_datetime_def INVALID_DATE_KEY_def split: if_splits)

lemma add_days_error: "add_days t k = Inl e \<Longrightarrow> e \<noteq> ValueError INVALID_DATE_KEY"
  by (auto simp: add_days_def Let_def split: if_splits prod.splits)

lemma resolve_date_key_guard_passed:
  assumes "length k \<in> {4, 6, 8}" "isdigit k"
  shows "resolve_date_key k \<noteq> Inl (ValueError INVALID_DATE_KEY)"
proof
  assume "resolve_date_key k = Inl (ValueError INVALID_DATE_KEY)"
  with assms show False
    unfolding resolve_date_key_def
    by (auto simp: ebind_eq_Inl split: if_splits
        dest: py_int_error mk_datetime_error add_days_error)
qed

lemma resolve_date_key_accepts:
  assumes "key_period k = Some p" "valid_period p" "last_day p \<noteq> (9999, 12, 31)"
  shows "\<exists>r. resolve_date_key k = Inr r"
proof -
  from assms(1) have dec: "decimal k" by (auto simp: key_period_def split: if_splits)
  from assms(1) consider
      (year) "length k = 4" "p = Year (decimal_value k)"
    | (month) "length k = 6" "p = Month (decimal_value (take 4 k)) (decimal_value (drop 4 k))"
    | (day) "length k = 8"
        "p = Day (decimal_value (take 4 k)) (decimal_value (take 2 (drop 4 k))) (decimal_value (drop 6 k))"
    by (auto simp: key_period_def split: if_splits)
  then show ?thesis
  proof cases
    case year
    with assms(2,3) resolve_year [OF dec year(1)] show ?thesis by simp
  next
    case month
    with assms(2,3) resolve_month [OF dec month(1)] show ?thesis
      by (auto simp: valid_period_def valid_ymd_def dim_12)
  next
    case day
    with assms(2,3) resolve_day [OF dec day(1)] show ?thesis by simp
  qed
qed

lemma py_int_Inr: "py_int s = Inr v \<Longrightarrow> decimal s \<and> v = decimal_value s"
  by (auto simp: py_int_def decimal_def split: if_splits)

lemma decimal_append: "decimal (a @ b) \<longleftrightarrow> decimal a \<and> decimal b"
  by (simp add: decimal_def)

lemma last_ordinal: "ymd2ord 9999 12 31 = MAXORDINAL"
  by code_simp

lemma resolve_date_key_Inr_period:
  assumes "resolve_date_key k = Inr r"
  shows "\<exists>p. key_period k = Some p \<and> valid_period p \<and> last_day p \<noteq> (9999, 12, 31)"
proof -
  from assms have shape: "length k = 4 \<or> length k = 6 \<or> length k = 8"
    by (auto simp: resolve_date_key_def split: if_splits)
  from assms obtain y where y: "py_int (take 4 k) = Inr y"
    by (auto simp: resolve_date_key_def ebind_eq_Inr split: if_splits)
  from py_int_Inr [OF y] have d4: "decimal (take 4 k)" and yv: "y = decimal_value (take 4 k)"
    by simp_all
  from shape consider (four) "length k = 4" | (six) "length k = 6" | (eight) "length k = 8" by blast
  then show ?thesis
  proof cases
    case four
    with assms y obtain s e where se: "mk_datetime y 1 1 None = Inr s"
        "mk_datetime (y + 1) 1 1 None = Inr e"
      by (auto simp: resolve_date_key_def ebind_eq_Inr split: if_splits)
    from mk_datetime_Inr(1) [OF se(1)] mk_datetime_Inr(1) [OF se(2)]
    have v: "valid_date y 1 1" "valid_date (y + 1) 1 1" .
    from four d4 have dec: "decimal k" by simp
    from four yv have yk: "y = decimal_value k" by simp
    have kp: "key_period k = Some (Year y)" using dec four yk by (simp add: key_period_def)
    have vp: "valid_period (Year y)" using v
      by (simp add: valid_period_def valid_ymd_def valid_date_def dim_12)
    have nl: "last_day (Year y) \<noteq> (9999, 12, 31)" using v(2)
      by (simp add: valid_date_def MAXYEAR_def)
    from kp vp nl show ?thesis by blast
  next
    case six
    with assms y obtain m s where m: "py_int (take 2 (drop 4 k)) = Inr m"
       "mk_datetime y m 1 None = Inr s"
       "(m = 12 \<and> (\<exists>e. mk_datetime (y + 1) 1 1 None = Inr e)) \<or> m \<noteq> 12"
      by (auto simp: resolve_date_key_def ebind_eq_Inr split: if_splits)
    have t2: "take 2 (drop 4 k) = drop 4 k" using six by simp
    from py_int_Inr [OF m(1)] t2 have d2: "decimal (drop 4 k)" and mv: "m = decimal_value (drop 4 k)"
      by simp_all
    have "decimal (take 4 k @ drop 4 k)" using d4 d2 by (simp only: decimal_append)
    then have dec: "decimal k" by simp
    have kp: "key_period k = Some (Month y m)" using dec six yv mv by (simp add: key_period_def)
    from mk_datetime_Inr(1) [OF m(2)] have v: "valid_date y m 1" .
    then have mr: "1 \<le> m" "m \<le> 12" by (simp_all add: valid_date_def)
    from dim_pos [OF mr, of y] v have vp: "valid_period (Month y m)"
      by (simp add: valid_period_def valid_ymd_def valid_date_def)
    have nl: "last_day (Month y m) \<noteq> (9999, 12, 31)"
    proof (cases "m = 12")
      case True
      with m(3) obtain e where "mk_datetime (y + 1) 1 1 None = Inr e" by blast
      from mk_datetime_Inr(1) [OF this] show ?thesis by (simp add: valid_date_def MAXYEAR_def)
    next
      case False
      then show ?thesis by simp
    qed
    from kp vp nl show ?thesis by blast
  next
    case eight
    with assms y obtain m d s e where md: "py_int (take 2 (drop 4 k)) = Inr m"
        "py_int (take 2 (drop 6 k)) = Inr d"
        "mk_datetime y m d None = Inr s" "add_days s 1 = Inr e"
      by (auto simp: resolve_date_key_def ebind_eq_Inr split: if_splits)
    have t2: "take 2 (drop 6 k) = drop 6 k" using eight by simp
    from py_int_Inr [OF md(1)] have d2: "decimal (take 2 (drop 4 k))"
      and mv: "m = decimal_value (take 2 (drop 4 k))" by simp_all
    from py_int_Inr [OF md(2)] t2 have d3: "decimal (drop 6 k)" and dv: "d = decimal_value (drop 6 k)"
      by simp_all
    have split: "k = take 4 k @ take 2 (drop 4 k) @ drop 6 k"
    proof -
      have "drop 4 k = take 2 (drop 4 k) @ drop 2 (drop 4 k)" by (simp only: append_take_drop_id)
      then have "drop 4 k = take 2 (drop 4 k) @ drop 6 k" by simp
      moreover have "k = take 4 k @ drop 4 k" by simp
      ultimately show ?thesis by simp
    qed
    have "decimal (take 4 k @ take 2 (drop 4 k) @ drop 6 k)" using d4 d2 d3
      by (simp only: decimal_append)
    with split have dec: "decimal k" by simp
    have kp: "key_period k = Some (Day y m d)" using dec eight yv mv dv by (simp add: key_period_def)
    from mk_datetime_Inr [OF md(3)] have v: "valid_date y m d"
      and s: "year s = y" "month s = m" "day s = d" by simp_all
    have vp: "valid_period (Day y m d)" using v by (simp add: valid_period_def valid_ymd_def)
    have nl: "last_day (Day y m d) \<noteq> (9999, 12, 31)"
    proof
      assume "last_day (Day y m d) = (9999, 12, 31)"
      then have "ymd2ord (year s) (month s) (day s) = MAXORDINAL" using s last_ordinal by simp
      with md(4) show False by (simp add: add_days_def Let_def)
    qed
    from kp vp nl show ?thesis by blast
  qed
qed

lemma py_int_not_decimal:
  "s \<noteq> [] \<Longrightarrow> \<not> decimal s \<Longrightarrow>
   py_int s = Inl (ValueError (''invalid literal for int() with base 10: '' @ [CHR 0x27] @ s @ [CHR 0x27]))"
  by (simp add: py_int_def decimal_def)

lemma resolve_date_key_not_decimal:
  assumes "length k \<in> {4, 6, 8}" "isdigit k" "\<not> decimal k"
  shows "\<exists>piece. resolve_date_key k =
           Inl (ValueError (''invalid literal for int() with base 10: ''
                              @ [CHR 0x27] @ piece @ [CHR 0x27]))"
proof -
  have guard: "\<not> (length k \<notin> {4, 6, 8} \<or> \<not> isdigit k)" using assms by simp
  have n4: "take 4 k \<noteq> []" using assms(1) by auto
  show ?thesis
  proof (cases "decimal (take 4 k)")
    case False
    from py_int_not_decimal [OF n4 False] show ?thesis
      unfolding resolve_date_key_def by (simp only: guard if_False ebind_Inl) blast
  next
    case True
    then have y: "py_int (take 4 k) = Inr (decimal_value (take 4 k))"
      using n4 by (simp add: py_int_decimal_value)
    from True assms(3) have l4: "length k \<noteq> 4" by auto
    have nd: "\<not> decimal (drop 4 k)"
    proof
      assume "decimal (drop 4 k)"
      with True have "decimal (take 4 k @ drop 4 k)" by (simp only: decimal_append)
      with assms(3) show False by simp
    qed
    have n2: "take 2 (drop 4 k) \<noteq> []" using assms(1) l4 by auto
    show ?thesis
    proof (cases "decimal (take 2 (drop 4 k))")
      case False
      from py_int_not_decimal [OF n2 False] l4 show ?thesis
        unfolding resolve_date_key_def
        by (simp only: guard if_False y ebind_Inr ebind_Inl if_cancel) blast
    next
      case m: True
      then have pm: "py_int (take 2 (drop 4 k)) = Inr (decimal_value (take 2 (drop 4 k)))"
        using n2 by (simp add: py_int_decimal_value)
      have l6: "length k \<noteq> 6"
      proof
        assume "length k = 6"
        then have "take 2 (drop 4 k) = drop 4 k" by simp
        with m nd show False by simp
      qed
      from assms(1) l4 l6 have l8: "length k = 8" by auto
      have t2: "take 2 (drop 6 k) = drop 6 k" using l8 by simp
      have n3: "drop 6 k \<noteq> []" using l8 by auto
      have nd3: "\<not> decimal (drop 6 k)"
      proof
        assume d3: "decimal (drop 6 k)"
        have "drop 4 k = take 2 (drop 4 k) @ drop 2 (drop 4 k)" by (simp only: append_take_drop_id)
        then have "drop 4 k = take 2 (drop 4 k) @ drop 6 k" by simp
        moreover have "decimal (take 2 (drop 4 k) @ drop 6 k)" using m d3
          by (simp only: decimal_append)
        ultimately show False using nd by simp
      qed
      from py_int_not_decimal [OF n3 nd3] l4 l6 show ?thesis
        unfolding resolve_date_key_def t2
        by (simp only: guard if_False y pm ebind_Inr ebind_Inl) blast
    qed
  qed
qed


lemma key_period_shape: "(\<exists>p. key_period k = Some p) = (length k \<in> {4, 6, 8} \<and> decimal k)"
  by (auto simp: key_period_def)



lemma resolve_date_key_superscript:
  "resolve_date_key [CHR ''2'', CHR ''0'', CHR 0xB2, CHR ''4'']
     = Inl (ValueError (''invalid literal for int() with base 10: ''
                          @ [CHR 0x27] @ [CHR ''2'', CHR ''0'', CHR 0xB2, CHR ''4''] @ [CHR 0x27]))"
  by code_simp


subsection \<open>The business date\<close>

lemma dt_less_combine:
  assumes "valid_datetime t"
  shows "dt_less t (combine (h, mi) t) \<longleftrightarrow> hour t < h \<or> (hour t = h \<and> minute t < mi)"
  using assms by (auto simp: dt_less_ymd combine_def valid_datetime_def)

lemma date_of_combine: "date_of (combine hm base) = date_of base"
  by (simp add: date_of_def combine_def)

lemma shift_start_date:
  assumes v: "valid_datetime t" and ne: "\<not> (date_of t = (1, 1, 1) \<and> before_first_shift t)"
  shows "\<exists>s. shift_start t = Inr s \<and>
           date_of (case s of Some x \<Rightarrow> x | None \<Rightarrow> t) =
             (if weekday t \<le> 4 \<and> before_first_shift t then day_before (date_of t) else date_of t)"
proof -
  have vd: "valid_date (year t) (month t) (day t)" using v by (simp add: valid_datetime_def)
  obtain y' m' d' where p: "prev_date (year t) (month t) (day t) = (y', m', d')"
    by (cases "prev_date (year t) (month t) (day t)")
  have yesterday: "add_days t (- 1) = Inr (t\<lparr>year := y', month := m', day := d'\<rparr>)"
    if "before_first_shift t"
  proof -
    from ne that have "(year t, month t, day t) \<noteq> (1, 1, 1)" by (simp add: date_of_def)
    from add_days_pred [OF vd this] p show ?thesis by simp
  qed
  have db: "day_before (date_of t) = (y', m', d')" by (simp add: day_before_def date_of_def p)
  have wd: "0 \<le> weekday t" "weekday t < 7" by (simp_all add: weekday_def)
  have c: "\<And>h mi. dt_less t (combine (h, mi) t) \<longleftrightarrow> hour t < h \<or> (hour t = h \<and> minute t < mi)"
    using v by (rule dt_less_combine)
  have "weekday t = 0 \<or> weekday t = 1 \<or> weekday t = 2 \<or> weekday t = 3 \<or> weekday t = 4
      \<or> weekday t = 5 \<or> weekday t = 6"
    using wd by presburger
  then consider (monthu) "weekday t \<in> {0, 1, 2, 3}" | (fri) "weekday t = 4" | (sat) "weekday t = 5"
    | (sun) "weekday t = 6"
    by auto
  then show ?thesis
  proof cases
    case monthu
    then have le: "weekday t \<le> 4" by auto
    show ?thesis
    proof (cases "before_first_shift t")
      case True
      then show ?thesis using monthu le yesterday [OF True]
        by (simp add: shift_start_def Let_def c db before_first_shift_def date_of_combine)
           (simp add: date_of_def)
    next
      case False
      then show ?thesis using monthu le
        by (auto simp add: shift_start_def Let_def c before_first_shift_def date_of_combine)
    qed
  next
    case fri
    show ?thesis
    proof (cases "before_first_shift t")
      case True
      then show ?thesis using fri yesterday [OF True]
        by (simp add: shift_start_def Let_def c db before_first_shift_def date_of_combine)
           (simp add: date_of_def)
    next
      case False
      then show ?thesis using fri
        by (auto simp add: shift_start_def Let_def c before_first_shift_def date_of_combine)
    qed
  next
    case sat
    then show ?thesis
      by (auto simp add: shift_start_def Let_def c date_of_combine)
  next
    case sun
    then show ?thesis
      by (auto simp add: shift_start_def Let_def)
  qed
qed

text \<open>Before 06:30 on 0001-01-01 the step back by one day leaves the calendar.\<close>

lemma shift_start_first_day:
  assumes v: "valid_datetime t" and d: "date_of t = (1, 1, 1)" and b: "before_first_shift t"
  shows "shift_start t = Inl (OverflowError ''date value out of range'')"
proof -
  from d have f: "year t = 1" "month t = 1" "day t = 1" by (simp_all add: date_of_def)
  have o: "ymd2ord 1 1 1 = 1" by code_simp
  have wd: "weekday t = 0" by (simp add: weekday_def f o)
  have ad: "add_days t (- 1) = Inl (OverflowError ''date value out of range'')"
    by (simp add: add_days_def f o Let_def)
  have c: "dt_less t (combine (6, 30) t)"
    using dt_less_combine [OF v, of 6 30] b by (simp add: before_first_shift_def)
  show ?thesis
    by (simp add: shift_start_def Let_def wd c ad)
qed

text \<open>
  C5 (as amended). The function first places its argument in the facility's zone: no
  argument is the current time there, a naive instant is read as local time there, and an
  aware instant is converted by the library; only that conversion can fail, and its
  exception is the function's. Once the instant is placed, the function raises exactly when
  the instant lies before 06:30 on 0001-01-01, a Monday without a previous day. For every
  other instant it returns the business date: the previous calendar day when the instant
  falls on Monday to Friday before 06:30, the first shift boundary of those days, and the
  instant's own calendar day otherwise, that is from the first boundary on, where the window
  that holds the instant started on that same day, and on Saturday before 06:30 and all
  Sunday, where no window is defined.
\<close>

theorem business_date_by_shift:
  "(dt_in_jakarta zl now = Inl e \<longrightarrow> get_jakarta_shift_business_date zl now = Inl e)
   \<and> (dt_in_jakarta zl now = Inr t \<and> valid_datetime t \<longrightarrow>
        get_jakarta_shift_business_date zl now =
          (if date_of t = (1, 1, 1) \<and> before_first_shift t
           then Inl (OverflowError ''date value out of range'')
           else Inr (if weekday t \<le> 4 \<and> before_first_shift t then day_before (date_of t)
                     else date_of t)))
   \<and> (dt_in_jakarta zl None = Inr (now_in_jakarta zl))
   \<and> (tzinfo x = None \<longrightarrow> dt_in_jakarta zl (Some x) = Inr (x\<lparr>tzinfo := Some JAKARTA_TZ\<rparr>))
   \<and> (tzinfo x \<noteq> None \<longrightarrow> dt_in_jakarta zl (Some x) = astimezone_jakarta zl x)"
proof (intro conjI impI)
  assume "dt_in_jakarta zl now = Inl e"
  then show "get_jakarta_shift_business_date zl now = Inl e"
    by (simp add: get_jakarta_shift_business_date_def)
next
  assume h: "dt_in_jakarta zl now = Inr t \<and> valid_datetime t"
  show "get_jakarta_shift_business_date zl now =
          (if date_of t = (1, 1, 1) \<and> before_first_shift t
           then Inl (OverflowError ''date value out of range'')
           else Inr (if weekday t \<le> 4 \<and> before_first_shift t then day_before (date_of t)
                     else date_of t))"
  proof (cases "date_of t = (1, 1, 1) \<and> before_first_shift t")
    case True
    with h shift_start_first_day [of t] show ?thesis
      by (simp add: get_jakarta_shift_business_date_def)
  next
    case False
    from h have v: "valid_datetime t" by simp
    from shift_start_date [OF v False] obtain s where
      "shift_start t = Inr s"
      "date_of (case s of Some x \<Rightarrow> x | None \<Rightarrow> t) =
         (if weekday t \<le> 4 \<and> before_first_shift t then day_before (date_of t) else date_of t)"
      by blast
    with h False show ?thesis
      by (simp add: get_jakarta_shift_business_date_def)
  qed
next
  show "dt_in_jakarta zl None = Inr (now_in_jakarta zl)" by (simp add: dt_in_jakarta_def)
next
  assume "tzinfo x = None"
  then show "dt_in_jakarta zl (Some x) = Inr (x\<lparr>tzinfo := Some JAKARTA_TZ\<rparr>)"
    by (simp add: dt_in_jakarta_def)
next
  assume "tzinfo x \<noteq> None"
  then show "dt_in_jakarta zl (Some x) = astimezone_jakarta zl x"
    by (auto simp: dt_in_jakarta_def)
qed


text \<open>Monday 2 December 2024: at 06:30:00 the business date is that Monday, one second
  earlier it is Sunday 1 December. At 06:30 on 0001-01-01 the business date is that day.
  With no argument, on a Saturday at 05:00, it is that Saturday. The conversion of
  9999-12-31T23:00 UTC, the one aware instant of the examples, leaves the calendar, and the
  function raises the library's \<^verbatim>\<open>OverflowError\<close>.\<close>

theorem business_date_by_shift_witness:
  "get_jakarta_shift_business_date
     \<lparr>now_in_jakarta = \<lparr>year = 2024, month = 12, day = 7, hour = 5, minute = 0, second = 0,
                         microsecond = 0, tzinfo = Some JAKARTA_TZ\<rparr>,
      astimezone_jakarta = (\<lambda>x. Inl (OverflowError ''date value out of range''))\<rparr>
     (Some \<lparr>year = 2024, month = 12, day = 2, hour = 6, minute = 30, second = 0,
             microsecond = 0, tzinfo = None\<rparr>) = Inr (2024, 12, 2)
   \<and> get_jakarta_shift_business_date
     \<lparr>now_in_jakarta = \<lparr>year = 2024, month = 12, day = 7, hour = 5, minute = 0, second = 0,
                         microsecond = 0, tzinfo = Some JAKARTA_TZ\<rparr>,
      astimezone_jakarta = (\<lambda>x. Inl (OverflowError ''date value out of range''))\<rparr>
     (Some \<lparr>year = 2024, month = 12, day = 2, hour = 6, minute = 29, second = 59,
             microsecond = 0, tzinfo = None\<rparr>) = Inr (2024, 12, 1)
   \<and> get_jakarta_shift_business_date
     \<lparr>now_in_jakarta = \<lparr>year = 2024, month = 12, day = 7, hour = 5, minute = 0, second = 0,
                         microsecond = 0, tzinfo = Some JAKARTA_TZ\<rparr>,
      astimezone_jakarta = (\<lambda>x. Inl (OverflowError ''date value out of range''))\<rparr>
     (Some \<lparr>year = 1, month = 1, day = 1, hour = 6, minute = 30, second = 0,
             microsecond = 0, tzinfo = None\<rparr>) = Inr (1, 1, 1)
   \<and> get_jakarta_shift_business_date
     \<lparr>now_in_jakarta = \<lparr>year = 2024, month = 12, day = 7, hour = 5, minute = 0, second = 0,
                         microsecond = 0, tzinfo = Some JAKARTA_TZ\<rparr>,
      astimezone_jakarta = (\<lambda>x. Inl (OverflowError ''date value out of range''))\<rparr>
     None = Inr (2024, 12, 7)
   \<and> get_jakarta_shift_business_date
     \<lparr>now_in_jakarta = \<lparr>year = 2024, month = 12, day = 7, hour = 5, minute = 0, second = 0,
                         microsecond = 0, tzinfo = Some JAKARTA_TZ\<rparr>,
      astimezone_jakarta = (\<lambda>x. Inl (OverflowError ''date value out of range''))\<rparr>
     (Some \<lparr>year = 9999, month = 12, day = 31, hour = 23, minute = 0, second = 0,
             microsecond = 0, tzinfo = Some (UtcOffset 0)\<rparr>)
       = Inl (OverflowError ''date value out of range'')"
proof -
  let ?sat = "\<lparr>year = 2024, month = 12, day = 7, hour = 5, minute = 0, second = 0,
                 microsecond = 0, tzinfo = Some JAKARTA_TZ\<rparr>"
  let ?zl = "\<lparr>now_in_jakarta = ?sat,
              astimezone_jakarta = (\<lambda>x. Inl (OverflowError ''date value out of range''))\<rparr>"
  let ?a = "\<lparr>year = 2024, month = 12, day = 2, hour = 6, minute = 30, second = 0,
             microsecond = 0, tzinfo = None\<rparr>"
  let ?b = "\<lparr>year = 2024, month = 12, day = 2, hour = 6, minute = 29, second = 59,
             microsecond = 0, tzinfo = None\<rparr>"
  let ?c = "\<lparr>year = 1, month = 1, day = 1, hour = 6, minute = 30, second = 0,
             microsecond = 0, tzinfo = None\<rparr>"
  let ?u = "\<lparr>year = 9999, month = 12, day = 31, hour = 23, minute = 0, second = 0,
             microsecond = 0, tzinfo = Some (UtcOffset 0)\<rparr>"
  let ?e = "OverflowError ''date value out of range''"
  have ja: "dt_in_jakarta ?zl (Some ?a) = Inr (?a\<lparr>tzinfo := Some JAKARTA_TZ\<rparr>)"
    using business_date_by_shift [of ?zl None ?e ?a ?a] by simp
  have jb: "dt_in_jakarta ?zl (Some ?b) = Inr (?b\<lparr>tzinfo := Some JAKARTA_TZ\<rparr>)"
    using business_date_by_shift [of ?zl None ?e ?b ?b] by simp
  have jc: "dt_in_jakarta ?zl (Some ?c) = Inr (?c\<lparr>tzinfo := Some JAKARTA_TZ\<rparr>)"
    using business_date_by_shift [of ?zl None ?e ?c ?c] by simp
  have jn: "dt_in_jakarta ?zl None = Inr ?sat"
    using business_date_by_shift [of ?zl None ?e ?a ?a] by simp
  have ju: "dt_in_jakarta ?zl (Some ?u) = Inl ?e"
    using business_date_by_shift [of ?zl None ?e ?u ?u] by simp
  have va: "valid_datetime (?a\<lparr>tzinfo := Some JAKARTA_TZ\<rparr>)" by code_simp
  have vb: "valid_datetime (?b\<lparr>tzinfo := Some JAKARTA_TZ\<rparr>)" by code_simp
  have vc: "valid_datetime (?c\<lparr>tzinfo := Some JAKARTA_TZ\<rparr>)" by code_simp
  have vn: "valid_datetime ?sat" by code_simp
  have ra: "(if date_of (?a\<lparr>tzinfo := Some JAKARTA_TZ\<rparr>) = (1, 1, 1)
                \<and> before_first_shift (?a\<lparr>tzinfo := Some JAKARTA_TZ\<rparr>)
             then Inl ?e
             else Inr (if weekday (?a\<lparr>tzinfo := Some JAKARTA_TZ\<rparr>) \<le> 4
                          \<and> before_first_shift (?a\<lparr>tzinfo := Some JAKARTA_TZ\<rparr>)
                       then day_before (date_of (?a\<lparr>tzinfo := Some JAKARTA_TZ\<rparr>))
                       else date_of (?a\<lparr>tzinfo := Some JAKARTA_TZ\<rparr>))) = Inr (2024, 12, 2)"
    by code_simp
  have rb: "(if date_of (?b\<lparr>tzinfo := Some JAKARTA_TZ\<rparr>) = (1, 1, 1)
                \<and> before_first_shift (?b\<lparr>tzinfo := Some JAKARTA_TZ\<rparr>)
             then Inl ?e
             else Inr (if weekday (?b\<lparr>tzinfo := Some JAKARTA_TZ\<rparr>) \<le> 4
                          \<and> before_first_shift (?b\<lparr>tzinfo := Some JAKARTA_TZ\<rparr>)
                       then day_before (date_of (?b\<lparr>tzinfo := Some JAKARTA_TZ\<rparr>))
                       else date_of (?b\<lparr>tzinfo := Some JAKARTA_TZ\<rparr>))) = Inr (2024, 12, 1)"
    by code_simp
  have rc: "(if date_of (?c\<lparr>tzinfo := Some JAKARTA_TZ\<rparr>) = (1, 1, 1)
                \<and> before_first_shift (?c\<lparr>tzinfo := Some JAKARTA_TZ\<rparr>)
             then Inl ?e
             else Inr (if weekday (?c\<lparr>tzinfo := Some JAKARTA_TZ\<rparr>) \<le> 4
                          \<and> before_first_shift (?c\<lparr>tzinfo := Some JAKARTA_TZ\<rparr>)
                       then day_before (date_of (?c\<lparr>tzinfo := Some JAKARTA_TZ\<rparr>))
                       else date_of (?c\<lparr>tzinfo := Some JAKARTA_TZ\<rparr>))) = Inr (1, 1, 1)"
    by code_simp
  have rn: "(if date_of ?sat = (1, 1, 1) \<and> before_first_shift ?sat
             then Inl ?e
             else Inr (if weekday ?sat \<le> 4 \<and> before_first_shift ?sat
                       then day_before (date_of ?sat)
                       else date_of ?sat)) = Inr (2024, 12, 7)"
    by code_simp
  have a: "get_jakarta_shift_business_date ?zl (Some ?a) = Inr (2024, 12, 2)"
    using business_date_by_shift [of ?zl "Some ?a" ?e "?a\<lparr>tzinfo := Some JAKARTA_TZ\<rparr>" ?a] ja va
    unfolding ra by blast
  have b: "get_jakarta_shift_business_date ?zl (Some ?b) = Inr (2024, 12, 1)"
    using business_date_by_shift [of ?zl "Some ?b" ?e "?b\<lparr>tzinfo := Some JAKARTA_TZ\<rparr>" ?b] jb vb
    unfolding rb by blast
  have c: "get_jakarta_shift_business_date ?zl (Some ?c) = Inr (1, 1, 1)"
    using business_date_by_shift [of ?zl "Some ?c" ?e "?c\<lparr>tzinfo := Some JAKARTA_TZ\<rparr>" ?c] jc vc
    unfolding rc by blast
  have n: "get_jakarta_shift_business_date ?zl None = Inr (2024, 12, 7)"
    using business_date_by_shift [of ?zl None ?e ?sat ?a] jn vn
    unfolding rn by blast
  have u: "get_jakarta_shift_business_date ?zl (Some ?u) = Inl ?e"
    using business_date_by_shift [of ?zl "Some ?u" ?e ?a ?a] ju by blast
  from a b c n u show ?thesis by blast
qed

text \<open>
  C5 as stated fails where it says that the function never raises: 0001-01-01 is a Monday,
  and before 06:30 on that day the function steps back one day, out of the calendar.
\<close>

theorem business_date_first_day_counterexample:
  "valid_datetime \<lparr>year = 1, month = 1, day = 1, hour = 0, minute = 0, second = 0,
                    microsecond = 0, tzinfo = None\<rparr>
   \<and> get_jakarta_shift_business_date \<lparr>now_in_jakarta = midnight (2024, 12, 2), astimezone_jakarta = Inr\<rparr>
     (Some \<lparr>year = 1, month = 1, day = 1, hour = 0, minute = 0, second = 0,
             microsecond = 0, tzinfo = None\<rparr>) = Inl (OverflowError ''date value out of range'')"
  by code_simp

subsection \<open>Synchronous and asynchronous engines\<close>

lemma provision_entry_cases:
  "provision_entry lib (A, S) (a, u) =
     (if sync_entry (a, u)
      then ebind (create_engine lib u) (\<lambda>engine. Inr (A, dict_set S a engine))
      else ebind (create_async_engine lib u) (\<lambda>engine. Inr (dict_set A a engine, S)))"
  by (simp add: provision_entry_def sync_entry_def)

lemma dict_set_fresh: "k \<notin> set (dict_keys d) \<Longrightarrow> dict_set d k v = d @ [(k, v)]"
  by (induction d) (auto simp: dict_keys_def)

lemma provision_engines_snoc:
  "provision_engines lib (xs @ [x])
     = ebind (provision_engines lib xs) (\<lambda>filled. provision_entry lib filled x)"
  by (simp add: provision_engines_def)

text \<open>When the loop ends without an exception, the library has accepted every URL, each
  with the constructor the rule picked for its entry, and the two dictionaries hold the
  engines it gave, in the order of the registry.\<close>

lemma provision_engines_distinct:
  assumes "distinct (map fst urls)" "provision_engines lib urls = Inr (A, S)"
  shows "A = map (\<lambda>(a, u). (a, projr (create_async_engine lib u)))
               (filter (\<lambda>e. \<not> sync_entry e) urls)
    \<and> S = map (\<lambda>(a, u). (a, projr (create_engine lib u))) (filter sync_entry urls)
    \<and> (\<forall>e \<in> set urls. (sync_entry e \<longrightarrow> \<not> isl (create_engine lib (snd e)))
          \<and> (\<not> sync_entry e \<longrightarrow> \<not> isl (create_async_engine lib (snd e))))"
  using assms
proof (induction urls arbitrary: A S rule: rev_induct)
  case Nil
  then show ?case by (simp add: provision_engines_def)
next
  case (snoc x xs)
  obtain a u where x: "x = (a, u)" by (cases x)
  from snoc.prems(1) have d: "distinct (map fst xs)" and fresh: "a \<notin> fst ` set xs"
    by (simp_all add: x)
  from snoc.prems(2) obtain A0 S0 where
    p0: "provision_engines lib xs = Inr (A0, S0)"
    and p1: "provision_entry lib (A0, S0) (a, u) = Inr (A, S)"
    unfolding provision_engines_snoc x by (auto simp: ebind_eq_Inr)
  note IH = snoc.IH [OF d p0]
  from IH have A0: "A0 = map (\<lambda>(a, u). (a, projr (create_async_engine lib u)))
               (filter (\<lambda>e. \<not> sync_entry e) xs)"
    and S0: "S0 = map (\<lambda>(a, u). (a, projr (create_engine lib u))) (filter sync_entry xs)"
    and acc: "\<forall>e \<in> set xs. (sync_entry e \<longrightarrow> \<not> isl (create_engine lib (snd e)))
          \<and> (\<not> sync_entry e \<longrightarrow> \<not> isl (create_async_engine lib (snd e)))"
    by blast+
  have f1: "a \<notin> set (dict_keys A0)" using fresh unfolding A0 by (force simp: dict_keys_def)
  have f2: "a \<notin> set (dict_keys S0)" using fresh unfolding S0 by (force simp: dict_keys_def)
  show ?case
  proof (cases "sync_entry (a, u)")
    case True
    with p1 obtain e where e: "create_engine lib u = Inr e" "A = A0" "S = dict_set S0 a e"
      by (auto simp: provision_entry_cases ebind_eq_Inr)
    from e(3) have "S = S0 @ [(a, e)]" by (simp add: dict_set_fresh [OF f2])
    with e(1,2) A0 S0 acc True show ?thesis by (simp add: x)
  next
    case False
    with p1 obtain e where e: "create_async_engine lib u = Inr e" "A = dict_set A0 a e" "S = S0"
      by (auto simp: provision_entry_cases ebind_eq_Inr)
    from e(2) have "A = A0 @ [(a, e)]" by (simp add: dict_set_fresh [OF f1])
    with e(1,3) A0 S0 acc False show ?thesis by (simp add: x)
  qed
qed

text \<open>Conversely, the loop ends without an exception when the library accepts every URL
  with the constructor the rule picks; and the exception of a refused URL ends it.\<close>

lemma provision_engines_succeeds:
  assumes "\<forall>e \<in> set urls. (sync_entry e \<longrightarrow> \<not> isl (create_engine lib (snd e)))
          \<and> (\<not> sync_entry e \<longrightarrow> \<not> isl (create_async_engine lib (snd e)))"
  shows "\<exists>r. provision_engines lib urls = Inr r"
  using assms
proof (induction urls rule: rev_induct)
  case Nil
  show ?case by (simp add: provision_engines_def)
next
  case (snoc x xs)
  obtain a u where x: "x = (a, u)" by (cases x)
  from snoc obtain A0 S0 where p0: "provision_engines lib xs = Inr (A0, S0)" by fastforce
  show ?case
  proof (cases "sync_entry (a, u)")
    case True
    with snoc.prems have "\<not> isl (create_engine lib u)" by (simp add: x)
    then obtain e where "create_engine lib u = Inr e" by (cases "create_engine lib u") simp_all
    with True show ?thesis by (simp add: provision_engines_snoc p0 x provision_entry_cases)
  next
    case False
    with snoc.prems have "\<not> isl (create_async_engine lib u)" by (simp add: x)
    then obtain e where "create_async_engine lib u = Inr e"
      by (cases "create_async_engine lib u") simp_all
    with False show ?thesis by (simp add: provision_engines_snoc p0 x provision_entry_cases)
  qed
qed

lemma provision_engines_Inl_append:
  "provision_engines lib xs = Inl err \<Longrightarrow> provision_engines lib (xs @ ys) = Inl err"
proof (induction ys rule: rev_induct)
  case Nil
  then show ?case by simp
next
  case (snoc y ys)
  then show ?case by (simp add: provision_engines_snoc append_assoc [symmetric] del: append_assoc)
qed

lemma provision_engines_refused:
  assumes "provision_engines lib xs = Inr r"
    and "if sync_entry (a, u) then create_engine lib u = Inl err
         else create_async_engine lib u = Inl err"
  shows "provision_engines lib (xs @ (a, u) # ys) = Inl err"
proof -
  obtain A0 S0 where r: "r = (A0, S0)" by (cases r)
  from assms have "provision_engines lib (xs @ [(a, u)]) = Inl err"
    by (simp add: provision_engines_snoc r provision_entry_cases split: if_splits)
  from provision_engines_Inl_append [OF this, of ys] show ?thesis by simp
qed

lemma map_of_tagged:
  assumes "distinct (map fst xs)" "(a, u) \<in> set xs" "P (a, u)"
  shows "map_of (map (\<lambda>(a, u). (a, f u)) (filter P xs)) a = Some (f u)"
proof -
  have "distinct (map fst (map (\<lambda>(a, u). (a, f u)) (filter P xs)))"
    using assms(1) by (simp add: distinct_map_filter comp_def case_prod_unfold)
  moreover have "(a, f u) \<in> set (map (\<lambda>(a, u). (a, f u)) (filter P xs))"
    using assms(2,3) by force
  ultimately show ?thesis by (rule map_of_is_SomeI)
qed

lemma keys_tagged:
  assumes "distinct (map fst xs)" "(a, u) \<in> set xs"
  shows "a \<in> set (dict_keys (map (\<lambda>(a, u). (a, f u)) (filter P xs))) \<longleftrightarrow> P (a, u)"
proof
  assume "a \<in> set (dict_keys (map (\<lambda>(a, u). (a, f u)) (filter P xs)))"
  then obtain u' where u': "(a, u') \<in> set xs" "P (a, u')" by (force simp: dict_keys_def)
  from assms u'(1) have "u' = u" by (meson eq_key_imp_eq_value)
  with u'(2) show "P (a, u)" by simp
next
  assume "P (a, u)"
  with assms(2) show "a \<in> set (dict_keys (map (\<lambda>(a, u). (a, f u)) (filter P xs)))"
    by (force simp: dict_keys_def)
qed

text \<open>
  C7. Whenever the loop over the registry has provisioned its engines, that is, the
  library has raised on none of the URLs, then for every entry of the registry: when the
  alias is \<open>cmms\<close> and the URL, in lower case, starts with \<open>oracle+oracledb\<close>, the engine
  held for the alias is the synchronous one, the one \<^verbatim>\<open>create_engine\<close> gave for the URL, and
  the alias has no asynchronous engine; in every other case, a \<open>cmms\<close> entry with another
  URL scheme and an alias of any other name included, the engine held for the alias is the
  asynchronous one, the one \<^verbatim>\<open>create_async_engine\<close> gave for the URL, and the alias has no
  synchronous engine.
\<close>

theorem provision_sync_iff:
  assumes "distinct (map fst urls)" "(alias, url) \<in> set urls"
    and "provision_engines lib urls = Inr (async_engines, sync_engines)"
  shows "(if alias = ''cmms'' \<and> startswith (lower url) ''oracle+oracledb''
          then (\<exists>engine. create_engine lib url = Inr engine
                  \<and> map_of sync_engines alias = Some engine)
               \<and> alias \<notin> set (dict_keys async_engines)
          else (\<exists>engine. create_async_engine lib url = Inr engine
                  \<and> map_of async_engines alias = Some engine)
               \<and> alias \<notin> set (dict_keys sync_engines))"
proof -
  from provision_engines_distinct [OF assms(1,3)]
  have A: "async_engines = map (\<lambda>(a, u). (a, projr (create_async_engine lib u)))
               (filter (\<lambda>e. \<not> sync_entry e) urls)"
    and S: "sync_engines = map (\<lambda>(a, u). (a, projr (create_engine lib u)))
               (filter sync_entry urls)"
    and acc: "\<forall>e \<in> set urls. (sync_entry e \<longrightarrow> \<not> isl (create_engine lib (snd e)))
          \<and> (\<not> sync_entry e \<longrightarrow> \<not> isl (create_async_engine lib (snd e)))"
    by blast+
  show ?thesis
  proof (cases "sync_entry (alias, url)")
    case True
    with acc assms(2) have "\<not> isl (create_engine lib url)" by force
    then have c: "create_engine lib url = Inr (projr (create_engine lib url))"
      by (cases "create_engine lib url") simp_all
    have m: "map_of sync_engines alias = Some (projr (create_engine lib url))"
      unfolding S using assms(1,2) True by (rule map_of_tagged)
    have k: "alias \<notin> set (dict_keys async_engines)"
      unfolding A
      using keys_tagged [OF assms(1,2), of "\<lambda>u. projr (create_async_engine lib u)"
          "\<lambda>e. \<not> sync_entry e"] True
      by simp
    from c m k True show ?thesis by (auto simp: sync_entry_def)
  next
    case False
    with acc assms(2) have "\<not> isl (create_async_engine lib url)" by force
    then have c: "create_async_engine lib url = Inr (projr (create_async_engine lib url))"
      by (cases "create_async_engine lib url") simp_all
    have m: "map_of async_engines alias = Some (projr (create_async_engine lib url))"
      unfolding A using assms(1,2) False by (rule map_of_tagged)
    have k: "alias \<notin> set (dict_keys sync_engines)"
      unfolding S
      using keys_tagged [OF assms(1,2), of "\<lambda>u. projr (create_engine lib u)" sync_entry] False
      by simp
    from c m k False show ?thesis by (auto simp: sync_entry_def)
  qed
qed

text \<open>A fragment of the library that accepts the four URLs of the examples, and two
  registries: one with a numbered alias, an alias of an unknown series and \<open>cmms\<close> on the
  Oracle thick-mode scheme, one with \<open>cmms\<close> on another scheme.\<close>

theorem provision_sync_iff_witness:
  "(case provision_engines
          \<lparr>init_oracle_client = None,
           create_engine = (\<lambda>url.
             if url = ''oracle+oracledb://h/c'' then Inr (SyncEngine url)
             else Inl (ArgumentError ''Could not parse SQLAlchemy URL from given URL string'')),
           create_async_engine = (\<lambda>url.
             if url \<in> {''mysql+aiomysql://h/a'', ''postgresql+asyncpg://h/b'',
                        ''postgresql+asyncpg://h/c''}
             then Inr (AsyncEngine url)
             else Inl (ArgumentError ''Could not parse SQLAlchemy URL from given URL string''))\<rparr>
          [(''ip04'', ''mysql+aiomysql://h/a''), (''xy99'', ''postgresql+asyncpg://h/b''),
           (''cmms'', ''oracle+oracledb://h/c'')] of
      Inl e \<Rightarrow> False
    | Inr (async_engines, sync_engines) \<Rightarrow>
        map_of sync_engines ''cmms'' = Some (SyncEngine ''oracle+oracledb://h/c'')
        \<and> ''cmms'' \<notin> set (dict_keys async_engines)
        \<and> map_of async_engines ''xy99'' = Some (AsyncEngine ''postgresql+asyncpg://h/b'')
        \<and> ''xy99'' \<notin> set (dict_keys sync_engines))
   \<and> (case provision_engines
          \<lparr>init_oracle_client = None,
           create_engine = (\<lambda>url.
             if url = ''oracle+oracledb://h/c'' then Inr (SyncEngine url)
             else Inl (ArgumentError ''Could not parse SQLAlchemy URL from given URL string'')),
           create_async_engine = (\<lambda>url.
             if url \<in> {''mysql+aiomysql://h/a'', ''postgresql+asyncpg://h/b'',
                        ''postgresql+asyncpg://h/c''}
             then Inr (AsyncEngine url)
             else Inl (ArgumentError ''Could not parse SQLAlchemy URL from given URL string''))\<rparr>
          [(''ip04'', ''mysql+aiomysql://h/a''), (''cmms'', ''postgresql+asyncpg://h/c'')] of
      Inl e \<Rightarrow> False
    | Inr (async_engines, sync_engines) \<Rightarrow>
        map_of async_engines ''cmms'' = Some (AsyncEngine ''postgresql+asyncpg://h/c'')
        \<and> ''cmms'' \<notin> set (dict_keys sync_engines))"
proof -
  let ?lib = "\<lparr>init_oracle_client = None,
           create_engine = (\<lambda>url.
             if url = ''oracle+oracledb://h/c'' then Inr (SyncEngine url)
             else Inl (ArgumentError ''Could not parse SQLAlchemy URL from given URL string'')),
           create_async_engine = (\<lambda>url.
             if url \<in> {''mysql+aiomysql://h/a'', ''postgresql+asyncpg://h/b'',
                        ''postgresql+asyncpg://h/c''}
             then Inr (AsyncEngine url)
             else Inl (ArgumentError ''Could not parse SQLAlchemy URL from given URL string''))\<rparr>"
  let ?r1 = "[(''ip04'', ''mysql+aiomysql://h/a''), (''xy99'', ''postgresql+asyncpg://h/b''),
        (''cmms'', ''oracle+oracledb://h/c'')]"
  let ?r2 = "[(''ip04'', ''mysql+aiomysql://h/a''), (''cmms'', ''postgresql+asyncpg://h/c'')]"
  let ?A1 = "[(''ip04'', AsyncEngine ''mysql+aiomysql://h/a''),
              (''xy99'', AsyncEngine ''postgresql+asyncpg://h/b'')]"
  let ?S1 = "[(''cmms'', SyncEngine ''oracle+oracledb://h/c'')]"
  let ?A2 = "[(''ip04'', AsyncEngine ''mysql+aiomysql://h/a''),
              (''cmms'', AsyncEngine ''postgresql+asyncpg://h/c'')]"
  let ?S2 = "[] :: (string \<times> engine) list"
  have p1: "provision_engines ?lib ?r1 = Inr (?A1, ?S1)" by code_simp
  have p2: "provision_engines ?lib ?r2 = Inr (?A2, ?S2)" by code_simp
  have d1: "distinct (map fst ?r1)" by simp
  have d2: "distinct (map fst ?r2)" by simp
  have m1: "(''cmms'', ''oracle+oracledb://h/c'') \<in> set ?r1" by simp
  have m2: "(''xy99'', ''postgresql+asyncpg://h/b'') \<in> set ?r1" by simp
  have m3: "(''cmms'', ''postgresql+asyncpg://h/c'') \<in> set ?r2" by simp
  have c1: "''cmms'' = ''cmms'' \<and> startswith (lower ''oracle+oracledb://h/c'') ''oracle+oracledb''"
    by code_simp
  have c2: "\<not> (''xy99'' = ''cmms'' \<and> startswith (lower ''postgresql+asyncpg://h/b'') ''oracle+oracledb'')"
    by simp
  have c3: "\<not> (''cmms'' = ''cmms'' \<and> startswith (lower ''postgresql+asyncpg://h/c'') ''oracle+oracledb'')"
    by code_simp
  have e1: "create_engine ?lib ''oracle+oracledb://h/c'' = Inr (SyncEngine ''oracle+oracledb://h/c'')"
    by simp
  have e2: "create_async_engine ?lib ''postgresql+asyncpg://h/b''
              = Inr (AsyncEngine ''postgresql+asyncpg://h/b'')"
    by simp
  have e3: "create_async_engine ?lib ''postgresql+asyncpg://h/c''
              = Inr (AsyncEngine ''postgresql+asyncpg://h/c'')"
    by simp
  have "(\<exists>engine. create_engine ?lib ''oracle+oracledb://h/c'' = Inr engine
            \<and> map_of ?S1 ''cmms'' = Some engine)
        \<and> ''cmms'' \<notin> set (dict_keys ?A1)"
    by (rule provision_sync_iff [OF d1 m1 p1, unfolded if_P [OF c1]])
  then have a: "map_of ?S1 ''cmms'' = Some (SyncEngine ''oracle+oracledb://h/c'')
        \<and> ''cmms'' \<notin> set (dict_keys ?A1)"
    unfolding e1 by blast
  have "(\<exists>engine. create_async_engine ?lib ''postgresql+asyncpg://h/b'' = Inr engine
            \<and> map_of ?A1 ''xy99'' = Some engine)
        \<and> ''xy99'' \<notin> set (dict_keys ?S1)"
    by (rule provision_sync_iff [OF d1 m2 p1, unfolded if_not_P [OF c2]])
  then have b: "map_of ?A1 ''xy99'' = Some (AsyncEngine ''postgresql+asyncpg://h/b'')
        \<and> ''xy99'' \<notin> set (dict_keys ?S1)"
    unfolding e2 by blast
  have "(\<exists>engine. create_async_engine ?lib ''postgresql+asyncpg://h/c'' = Inr engine
            \<and> map_of ?A2 ''cmms'' = Some engine)
        \<and> ''cmms'' \<notin> set (dict_keys ?S2)"
    by (rule provision_sync_iff [OF d2 m3 p2, unfolded if_not_P [OF c3]])
  then have c: "map_of ?A2 ''cmms'' = Some (AsyncEngine ''postgresql+asyncpg://h/c'')
        \<and> ''cmms'' \<notin> set (dict_keys ?S2)"
    unfolding e3 by blast
  show ?thesis
    unfolding p1 p2 sum.case prod.case using a b c by blast
qed

text \<open>The constructor is given the URL as it is written. Where the library refuses a URL
  whose scheme is written in capitals, although the rule, which reads the URL in lower
  case, has picked the synchronous engine for it, the loop ends with the library's
  exception and no engine is held.\<close>

lemma provision_engines_mixed_case_refused:
  assumes "create_engine lib ''Oracle+OracleDB://h/c'' = Inl err"
  shows "provision_engines lib [(''cmms'', ''Oracle+OracleDB://h/c'')] = Inl err"
proof -
  have "sync_entry (''cmms'', ''Oracle+OracleDB://h/c'')" by code_simp
  with assms provision_engines_refused [of lib "[]" "([], [])" "''cmms''" "''Oracle+OracleDB://h/c''" err "[]"]
  show ?thesis by (simp add: provision_engines_def)
qed

subsection \<open>Alias resolution\<close>

lemma import_database_Inr:
  assumes "import_database lib urls = Inr db"
  shows "urls \<noteq> []" "database_urls db = urls" "DEFAULT_DB_ALIAS db = fst (hd urls)"
    "\<exists>S. provision_engines lib urls = Inr (SESSION_FACTORIES db, S)"
    "Settings_default_database_alias urls = Some (DEFAULT_DB_ALIAS db)"
  using assms
  by (auto simp: import_database_def Settings_default_database_alias_def ebind_eq_Inr
      split: list.splits prod.splits)

lemma resolve_db_alias_default:
  assumes "import_database lib urls = Inr db"
  shows "resolve_db_alias db None = Inr (DEFAULT_DB_ALIAS db)"
    and "resolve_db_alias db (Some (DEFAULT_DB_ALIAS db)) = resolve_db_alias db None"
proof -
  from import_database_Inr(1-3) [OF assms]
  have "DEFAULT_DB_ALIAS db \<in> set (dict_keys (database_urls db))"
    by (cases urls) (auto simp: dict_keys_def)
  then show "resolve_db_alias db None = Inr (DEFAULT_DB_ALIAS db)"
    by (simp add: resolve_db_alias_def)
  show "resolve_db_alias db (Some (DEFAULT_DB_ALIAS db)) = resolve_db_alias db None"
    by (simp add: resolve_db_alias_def)
qed

lemma resolve_db_alias_unknown:
  assumes "a \<noteq> []" "a \<notin> set (dict_keys (database_urls db))"
  shows "resolve_db_alias db (Some a)
           = Inl (ValueError (unknown_alias_message a (available_databases db)))"
  using assms by (simp add: resolve_db_alias_def)

lemma available_databases_async:
  assumes "import_database lib urls = Inr db" "distinct (map fst urls)"
  shows "available_databases db = map fst (filter (\<lambda>e. \<not> sync_entry e) urls)"
proof -
  from import_database_Inr(4) [OF assms(1)] obtain S where
    "provision_engines lib urls = Inr (SESSION_FACTORIES db, S)" by blast
  from provision_engines_distinct [OF assms(2) this]
  have "SESSION_FACTORIES db = map (\<lambda>(a, u). (a, projr (create_async_engine lib u)))
               (filter (\<lambda>e. \<not> sync_entry e) urls)"
    by blast
  then show ?thesis
    by (simp add: available_databases_def dict_keys_def comp_def case_prod_unfold)
qed

text \<open>
  C9, the code at the failing input. The registry holds \<open>ip04\<close> and an Oracle \<open>cmms\<close>, and
  the module is imported: the native client is initialised and the library gives an engine
  for each of the two URLs. Both are registered aliases, yet the error for an unknown alias
  lists \<open>ip04\<close> alone.
\<close>

theorem unknown_alias_lists_async_only:
  assumes "init_oracle_client lib = None"
    and "create_async_engine lib ''mysql+aiomysql://h/a'' = Inr a"
    and "create_engine lib ''oracle+oracledb://h/c'' = Inr s"
  shows "(case import_database lib
           (Settings_database_urls [(''IP04_DATABASE_URL'', ''mysql+aiomysql://h/a'')] None
              (Some ''oracle+oracledb://h/c'')) of
      Inl e \<Rightarrow> False
    | Inr db \<Rightarrow>
        dict_keys (database_urls db) = [''ip04'', ''cmms'']
        \<and> resolve_db_alias db (Some ''cmms'') = Inr ''cmms''
        \<and> resolve_db_alias db (Some ''doesnotexist'')
            = Inl (ValueError ''Unknown database alias 'doesnotexist'. Available: ['ip04']''))"
proof -
  have u: "Settings_database_urls [(''IP04_DATABASE_URL'', ''mysql+aiomysql://h/a'')] None
              (Some ''oracle+oracledb://h/c'')
             = [(''ip04'', ''mysql+aiomysql://h/a''), (''cmms'', ''oracle+oracledb://h/c'')]"
    by code_simp
  have s1: "\<not> sync_entry (''ip04'', ''mysql+aiomysql://h/a'')" by (simp add: sync_entry_def)
  have s2: "sync_entry (''cmms'', ''oracle+oracledb://h/c'')" by code_simp
  have p: "provision_engines lib [(''ip04'', ''mysql+aiomysql://h/a''), (''cmms'', ''oracle+oracledb://h/c'')]
             = Inr ([(''ip04'', a)], [(''cmms'', s)])"
    by (simp add: provision_engines_def provision_entry_cases s1 s2 assms(2,3))
  have i: "import_database lib [(''ip04'', ''mysql+aiomysql://h/a''), (''cmms'', ''oracle+oracledb://h/c'')]
             = Inr \<lparr>database_urls = [(''ip04'', ''mysql+aiomysql://h/a''),
                                      (''cmms'', ''oracle+oracledb://h/c'')],
                    ASYNC_ENGINES = [(''ip04'', a)], SYNC_ENGINES = [(''cmms'', s)],
                    SESSION_FACTORIES = [(''ip04'', a)], DEFAULT_DB_ALIAS = ''ip04''\<rparr>"
    by (simp add: import_database_def init_thick_mode_def dict_keys_def assms(1) p
        Settings_default_database_alias_def)
  have m: "unknown_alias_message ''doesnotexist'' [''ip04'']
             = ''Unknown database alias 'doesnotexist'. Available: ['ip04']''"
    by code_simp
  show ?thesis
    unfolding u i sum.case
    by (simp add: dict_keys_def resolve_db_alias_def available_databases_def m)
qed

text \<open>A fragment of the library under which the module is imported with this registry.\<close>

theorem unknown_alias_lists_async_only_witness:
  "(case import_database
           \<lparr>init_oracle_client = None,
            create_engine = (\<lambda>url.
              if url = ''oracle+oracledb://h/c'' then Inr (SyncEngine url)
              else Inl (ArgumentError ''Could not parse SQLAlchemy URL from given URL string'')),
            create_async_engine = (\<lambda>url.
              if url = ''mysql+aiomysql://h/a'' then Inr (AsyncEngine url)
              else Inl (ArgumentError ''Could not parse SQLAlchemy URL from given URL string''))\<rparr>
           (Settings_database_urls [(''IP04_DATABASE_URL'', ''mysql+aiomysql://h/a'')] None
              (Some ''oracle+oracledb://h/c'')) of
      Inl e \<Rightarrow> False
    | Inr db \<Rightarrow>
        dict_keys (database_urls db) = [''ip04'', ''cmms'']
        \<and> resolve_db_alias db (Some ''cmms'') = Inr ''cmms''
        \<and> resolve_db_alias db (Some ''doesnotexist'')
            = Inl (ValueError ''Unknown database alias 'doesnotexist'. Available: ['ip04']''))"
  by (rule unknown_alias_lists_async_only) simp_all

subsection \<open>The session scope gives its connection back\<close>

lemma scope_inv_checkout: "scope_inv alias p0 sp \<Longrightarrow> scope_inv alias p0 (checkout sp)"
  by (cases sp) (auto simp: scope_inv_def checkout_def)

lemma scope_inv_release: "scope_inv alias p0 sp \<Longrightarrow> scope_inv alias p0 (release sp)"
  by (cases sp) (auto simp: scope_inv_def release_def)

lemma scope_inv_step: "scope_inv alias p0 sp \<Longrightarrow> scope_inv alias p0 (session_step sp x)"
  by (cases x) (simp_all add: scope_inv_checkout scope_inv_release)

lemma scope_inv_block: "scope_inv alias p0 sp \<Longrightarrow> scope_inv alias p0 (foldl session_step sp ops)"
  by (induction ops arbitrary: sp) (simp_all add: scope_inv_step)

lemma release_gives_back:
  assumes "scope_inv alias p0 sp"
  shows "snd (release sp) = p0"
  using assms by (cases sp) (auto simp: scope_inv_def release_def)

text \<open>
  C6. Whatever the block does with the session and however it ends (it returns, it raises,
  it is cancelled), when the scope is left every pool has as many connections checked out
  as before the scope was entered, and the scope ends the way the block ended. When
  \<^verbatim>\<open>get_session\<close> itself raises (unknown alias, no asynchronous session for the alias),
  nothing was taken from any pool.
\<close>

theorem get_session_gives_back:
  "snd (get_session db db_alias (ops, out) p) = p
   \<and> (\<forall>alias \<in> set (dict_keys (SESSION_FACTORIES db)).
        resolve_db_alias db db_alias = Inr alias \<longrightarrow>
        fst (get_session db db_alias (ops, out) p) = out)"
proof (cases "resolve_db_alias db db_alias")
  case (Inl e)
  then show ?thesis by (simp add: get_session_def)
next
  case (Inr name)
  show ?thesis
  proof (cases "name \<in> set (dict_keys (SESSION_FACTORIES db))")
    case False
    with Inr show ?thesis by (simp add: get_session_def)
  next
    case True
    let ?s0 = "(\<lparr>bound_alias = name, holds_connection = False\<rparr>, p)"
    have "scope_inv name p ?s0" by (simp add: scope_inv_def)
    then have "scope_inv name p (foldl session_step ?s0 ops)" by (rule scope_inv_block)
    then have "scope_inv name p (release (foldl session_step ?s0 ops))" by (rule scope_inv_release)
    then have "snd (release (release (foldl session_step ?s0 ops))) = p" by (rule release_gives_back)
    with Inr True show ?thesis by (simp add: get_session_def Let_def)
  qed
qed

text \<open>Three runs on the alias \<open>ip04\<close> of a module imported with a library that gives an
  engine for the alias's URL; the pool has three connections out beforehand:
  the block returns after a committed statement, raises after a statement, and is cancelled
  while its second statement is under way.\<close>

theorem get_session_gives_back_witness:
  "(case import_database
           \<lparr>init_oracle_client = None,
            create_engine = (\<lambda>url.
              if url = ''oracle+oracledb://h/c'' then Inr (SyncEngine url)
              else Inl (ArgumentError ''Could not parse SQLAlchemy URL from given URL string'')),
            create_async_engine = (\<lambda>url.
              if url = ''mysql+aiomysql://h/a'' then Inr (AsyncEngine url)
              else Inl (ArgumentError ''Could not parse SQLAlchemy URL from given URL string''))\<rparr>
           [(''ip04'', ''mysql+aiomysql://h/a'')] of
      Inl e \<Rightarrow> False
    | Inr db \<Rightarrow>
        get_session db (Some ''ip04'') ([Execute, Commit], Returned) ((\<lambda>a. 0)(''ip04'' := 3))
          = (Returned, (\<lambda>a. 0)(''ip04'' := 3))
        \<and> get_session db None ([Execute], Raised (RuntimeError ''boom'')) ((\<lambda>a. 0)(''ip04'' := 3))
          = (Raised (RuntimeError ''boom''), (\<lambda>a. 0)(''ip04'' := 3))
        \<and> get_session db (Some ''ip04'') ([Execute, Commit, Execute], Cancelled)
            ((\<lambda>a. 0)(''ip04'' := 3))
          = (Cancelled, (\<lambda>a. 0)(''ip04'' := 3)))"
proof -
  let ?lib = "\<lparr>init_oracle_client = None,
            create_engine = (\<lambda>url.
              if url = ''oracle+oracledb://h/c'' then Inr (SyncEngine url)
              else Inl (ArgumentError ''Could not parse SQLAlchemy URL from given URL string'')),
            create_async_engine = (\<lambda>url.
              if url = ''mysql+aiomysql://h/a'' then Inr (AsyncEngine url)
              else Inl (ArgumentError ''Could not parse SQLAlchemy URL from given URL string''))\<rparr>"
  have s1: "\<not> sync_entry (''ip04'', ''mysql+aiomysql://h/a'')" by (simp add: sync_entry_def)
  have p: "provision_engines ?lib [(''ip04'', ''mysql+aiomysql://h/a'')]
             = Inr ([(''ip04'', AsyncEngine ''mysql+aiomysql://h/a'')], [])"
    by (simp add: provision_engines_def provision_entry_cases s1)
  obtain db where db: "import_database ?lib [(''ip04'', ''mysql+aiomysql://h/a'')] = Inr db"
    by (simp add: import_database_def init_thick_mode_def dict_keys_def p)
  from import_database_Inr(4) [OF db] obtain S where
    "provision_engines ?lib [(''ip04'', ''mysql+aiomysql://h/a'')] = Inr (SESSION_FACTORIES db, S)"
    by blast
  with p have sf: "SESSION_FACTORIES db = [(''ip04'', AsyncEngine ''mysql+aiomysql://h/a'')]"
    by simp
  have keys: "''ip04'' \<in> set (dict_keys (SESSION_FACTORIES db))"
    by (simp add: sf dict_keys_def)
  have r1: "resolve_db_alias db (Some ''ip04'') = Inr ''ip04''"
    using import_database_Inr(2) [OF db] by (simp add: resolve_db_alias_def dict_keys_def)
  have r2: "resolve_db_alias db None = Inr ''ip04''"
    using resolve_db_alias_default(1) [OF db] import_database_Inr(3) [OF db] by simp
  let ?p = "(\<lambda>a. 0)(''ip04'' := 3) :: pools"
  have a: "get_session db (Some ''ip04'') ([Execute, Commit], Returned) ?p = (Returned, ?p)"
    using get_session_gives_back [of db "Some ''ip04''" "[Execute, Commit]" Returned ?p] keys r1
    by (metis prod.collapse)
  have b: "get_session db None ([Execute], Raised (RuntimeError ''boom'')) ?p
             = (Raised (RuntimeError ''boom''), ?p)"
    using get_session_gives_back [of db None "[Execute]" "Raised (RuntimeError ''boom'')" ?p] keys r2
    by (metis prod.collapse)
  have c: "get_session db (Some ''ip04'') ([Execute, Commit, Execute], Cancelled) ?p = (Cancelled, ?p)"
    using get_session_gives_back [of db "Some ''ip04''" "[Execute, Commit, Execute]" Cancelled ?p] keys r1
    by (metis prod.collapse)
  from a b c show ?thesis by (simp add: db)
qed

subsection \<open>The zone of a parsed timestamp\<close>

lemma except_ValueError_Inr:
  "except_ValueError r k = Inr t \<Longrightarrow> r = Inr t \<or> k = Inr t"
  by (auto simp: except_ValueError_def split: sum.splits error.splits)

lemma attempt_Inr: "attempt c r k = Inr t \<Longrightarrow> r = Inr t \<or> k = Inr t"
  by (auto simp: attempt_def dest: except_ValueError_Inr split: if_splits)

lemma except_ValueError_Inl:
  "except_ValueError r k = Inl (ValueError m) \<Longrightarrow> k = Inl (ValueError m)"
  by (auto simp: except_ValueError_def split: sum.splits error.splits)

lemma attempt_Inl: "attempt c r k = Inl (ValueError m) \<Longrightarrow> k = Inl (ValueError m)"
  by (auto simp: attempt_def dest: except_ValueError_Inl split: if_splits)

lemma in_default_tz_zone: "ebind r in_default_tz = Inr t \<Longrightarrow> tzinfo t = Some DEFAULT_TZ"
  by (auto simp: ebind_eq_Inr in_default_tz_def)

lemma first_of_month_zone:
  "ebind r (\<lambda>parsed. mk_datetime (year parsed) (month parsed) 1 (Some DEFAULT_TZ)) = Inr t
     \<Longrightarrow> tzinfo t = Some DEFAULT_TZ"
  by (auto simp: ebind_eq_Inr dest!: mk_datetime_Inr(2))

lemma first_of_year_zone:
  "ebind r (\<lambda>y. mk_datetime y 1 1 (Some DEFAULT_TZ)) = Inr t \<Longrightarrow> tzinfo t = Some DEFAULT_TZ"
  by (auto simp: ebind_eq_Inr dest!: mk_datetime_Inr(2))

lemma iso_zone:
  assumes "ebind (fromisoformat lib x) (\<lambda>iso_dt.
         Inr (if tzinfo iso_dt = None then iso_dt\<lparr>tzinfo := Some DEFAULT_TZ\<rparr> else iso_dt)) = Inr t"
  shows "tzinfo t = Some DEFAULT_TZ \<or> (fromisoformat lib x = Inr t \<and> tzinfo t \<noteq> None)"
proof -
  from assms obtain iso where iso: "fromisoformat lib x = Inr iso"
    and t: "t = (if tzinfo iso = None then iso\<lparr>tzinfo := Some DEFAULT_TZ\<rparr> else iso)"
    by (auto simp: ebind_eq_Inr)
  show ?thesis
  proof (cases "tzinfo iso = None")
    case True
    with t show ?thesis by simp
  next
    case False
    with t iso show ?thesis by simp
  qed
qed


lemma parse_cycle_start_date_ValueError:
  assumes "parse_cycle_start_date lib s = Inl (ValueError m)"
  shows "m = INVALID_FORMAT @ strip s"
proof -
  from assms have "Inl (ValueError (INVALID_FORMAT @ strip s)) = (Inl (ValueError m) :: error + datetime)"
    unfolding parse_cycle_start_date_def Let_def
    by (auto dest!: except_ValueError_Inl attempt_Inl)
  then show ?thesis by simp
qed


subsection \<open>Alias discovery\<close>

lemma char_lower_unfold:
  "char_lower c =
     (if (65 \<le> (of_char c :: nat) \<and> (of_char c :: nat) \<le> 90)
         \<or> (192 \<le> (of_char c :: nat) \<and> (of_char c :: nat) \<le> 222 \<and> (of_char c :: nat) \<noteq> 215)
      then char_of ((of_char c :: nat) + 32) else c)"
  by (simp add: char_lower_def Let_def)

lemma char_upper_unfold:
  "char_upper c =
     (if (97 \<le> (of_char c :: nat) \<and> (of_char c :: nat) \<le> 122)
         \<or> (224 \<le> (of_char c :: nat) \<and> (of_char c :: nat) \<le> 254 \<and> (of_char c :: nat) \<noteq> 247)
      then char_of ((of_char c :: nat) - 32) else c)"
  by (simp add: char_upper_def Let_def)

lemma of_char_shift_up:
  fixes n :: nat
  assumes "n \<le> 222"
  shows "(of_char (char_of (n + 32) :: char) :: nat) = n + 32"
  using assms by simp

lemma of_char_shift_down:
  fixes n :: nat
  assumes "n < 256"
  shows "(of_char (char_of (n - 32) :: char) :: nat) = n - 32"
  using assms by simp

lemma char_lower_shift:
  assumes "(65 \<le> (of_char c :: nat) \<and> (of_char c :: nat) \<le> 90)
         \<or> (192 \<le> (of_char c :: nat) \<and> (of_char c :: nat) \<le> 222 \<and> (of_char c :: nat) \<noteq> 215)"
  shows "char_lower c = char_of ((of_char c :: nat) + 32)"
  by (subst char_lower_unfold) (simp only: assms if_True)

lemma char_lower_same:
  assumes "\<not> ((65 \<le> (of_char c :: nat) \<and> (of_char c :: nat) \<le> 90)
         \<or> (192 \<le> (of_char c :: nat) \<and> (of_char c :: nat) \<le> 222 \<and> (of_char c :: nat) \<noteq> 215))"
  shows "char_lower c = c"
  by (subst char_lower_unfold) (simp only: assms if_False)

lemma char_lower_idem: "char_lower (char_lower c) = char_lower c"
proof (cases "(65 \<le> (of_char c :: nat) \<and> (of_char c :: nat) \<le> 90)
         \<or> (192 \<le> (of_char c :: nat) \<and> (of_char c :: nat) \<le> 222 \<and> (of_char c :: nat) \<noteq> 215)")
  case True
  have l: "char_lower c = char_of ((of_char c :: nat) + 32)" using True by (rule char_lower_shift)
  have "(of_char c :: nat) \<le> 222" using True by auto
  then have o: "(of_char (char_of ((of_char c :: nat) + 32) :: char) :: nat) = of_char c + 32"
    by (rule of_char_shift_up)
  have "char_lower (char_of ((of_char c :: nat) + 32)) = char_of ((of_char c :: nat) + 32)"
    by (rule char_lower_same) (use True in \<open>auto simp: o\<close>)
  then show ?thesis by (simp only: l)
next
  case False
  then have "char_lower c = c" by (rule char_lower_same)
  then show ?thesis by simp
qed

lemma lower_idem: "lower (lower s) = lower s"
  by (simp add: lower_def char_lower_idem)

lemma lower_append: "lower (a @ b) = lower a @ lower b"
  by (simp add: lower_def)

lemma upper_append: "upper (a @ b) = upper a @ upper b"
  by (simp add: upper_def)

lemma char_lower_digit: "ascii_digit c \<Longrightarrow> char_lower c = c"
  by (rule char_lower_same) (auto simp: ascii_digit_def)

lemma lower_decimal: "decimal s \<Longrightarrow> lower s = s"
  by (induction s) (simp_all add: decimal_def lower_def char_lower_digit)

lemma char_lower_underscore: "char_lower c = CHR ''_'' \<Longrightarrow> c = CHR ''_''"
proof -
  assume a: "char_lower c = CHR ''_''"
  show ?thesis
  proof (cases "(65 \<le> (of_char c :: nat) \<and> (of_char c :: nat) \<le> 90)
         \<or> (192 \<le> (of_char c :: nat) \<and> (of_char c :: nat) \<le> 222 \<and> (of_char c :: nat) \<noteq> 215)")
    case True
    then have "char_lower c = char_of ((of_char c :: nat) + 32)" by (rule char_lower_shift)
    with a have "(of_char (char_of ((of_char c :: nat) + 32) :: char) :: nat) = of_char (CHR ''_'')"
      by simp
    moreover have "(of_char c :: nat) \<le> 222" using True by auto
    ultimately have "(of_char c :: nat) + 32 = 95" by (simp add: of_char_shift_up)
    with True show ?thesis by auto
  next
    case False
    then have "char_lower c = c" by (rule char_lower_same)
    with a show ?thesis by simp
  qed
qed

lemma char_upper_shift:
  assumes "(97 \<le> (of_char c :: nat) \<and> (of_char c :: nat) \<le> 122)
         \<or> (224 \<le> (of_char c :: nat) \<and> (of_char c :: nat) \<le> 254 \<and> (of_char c :: nat) \<noteq> 247)"
  shows "char_upper c = char_of ((of_char c :: nat) - 32)"
  by (subst char_upper_unfold) (simp only: assms if_True)

lemma char_upper_same:
  assumes "\<not> ((97 \<le> (of_char c :: nat) \<and> (of_char c :: nat) \<le> 122)
         \<or> (224 \<le> (of_char c :: nat) \<and> (of_char c :: nat) \<le> 254 \<and> (of_char c :: nat) \<noteq> 247))"
  shows "char_upper c = c"
  by (subst char_upper_unfold) (simp only: assms if_False)

text \<open>A character whose upper case is an ASCII capital or the underscore has the matching
  ASCII small letter, or the underscore, as its lower case.\<close>

lemma char_upper_ascii:
  assumes "char_upper c = u" "(65 \<le> (of_char u :: nat) \<and> (of_char u :: nat) \<le> 90)"
  shows "char_lower c = char_of ((of_char u :: nat) + 32)"
proof (cases "(97 \<le> (of_char c :: nat) \<and> (of_char c :: nat) \<le> 122)
         \<or> (224 \<le> (of_char c :: nat) \<and> (of_char c :: nat) \<le> 254 \<and> (of_char c :: nat) \<noteq> 247)")
  case True
  then have "char_upper c = char_of ((of_char c :: nat) - 32)" by (rule char_upper_shift)
  with assms(1) have "(of_char u :: nat) = of_char (char_of ((of_char c :: nat) - 32) :: char)" by simp
  also have "\<dots> = (of_char c :: nat) - 32" by (rule of_char_shift_down) simp
  finally have u: "(of_char u :: nat) = (of_char c :: nat) - 32" .
  with assms(2) True have small: "97 \<le> (of_char c :: nat)" "(of_char c :: nat) \<le> 122" by auto
  then have "char_lower c = c" by (intro char_lower_same) auto
  moreover have "(char_of ((of_char u :: nat) + 32) :: char) = c" using u small by simp
  ultimately show ?thesis by simp
next
  case False
  then have "char_upper c = c" by (rule char_upper_same)
  with assms have uc: "u = c" by simp
  with assms(2) have "(65 \<le> (of_char c :: nat) \<and> (of_char c :: nat) \<le> 90)
         \<or> (192 \<le> (of_char c :: nat) \<and> (of_char c :: nat) \<le> 222 \<and> (of_char c :: nat) \<noteq> 215)"
    by simp
  then have "char_lower c = char_of ((of_char c :: nat) + 32)" by (rule char_lower_shift)
  then show ?thesis by (simp only: uc)
qed

lemma char_upper_underscore:
  assumes "char_upper c = CHR ''_''"
  shows "c = CHR ''_''"
proof (cases "(97 \<le> (of_char c :: nat) \<and> (of_char c :: nat) \<le> 122)
         \<or> (224 \<le> (of_char c :: nat) \<and> (of_char c :: nat) \<le> 254 \<and> (of_char c :: nat) \<noteq> 247)")
  case True
  then have "char_upper c = char_of ((of_char c :: nat) - 32)" by (rule char_upper_shift)
  with assms have "(of_char (CHR ''_'') :: nat) = of_char (char_of ((of_char c :: nat) - 32) :: char)" by simp
  also have "\<dots> = (of_char c :: nat) - 32" by (rule of_char_shift_down) simp
  finally have "(of_char c :: nat) = 127" using True by auto
  with True show ?thesis by auto
next
  case False
  then have "char_upper c = c" by (rule char_upper_same)
  with assms show ?thesis by simp
qed

lemma upper_CKP:
  assumes "upper pfx = ''CKP_''"
  shows "lower pfx = ''ckp_''"
proof -
  from assms obtain c1 c2 c3 c4 where p: "pfx = [c1, c2, c3, c4]"
    and u: "char_upper c1 = CHR ''C''" "char_upper c2 = CHR ''K''" "char_upper c3 = CHR ''P''"
      "char_upper c4 = CHR ''_''"
    by (auto simp: upper_def map_eq_Cons_conv)
  have e: "(char_of ((of_char (CHR ''C'') :: nat) + 32) :: char) = CHR ''c''"
    "(char_of ((of_char (CHR ''K'') :: nat) + 32) :: char) = CHR ''k''"
    "(char_of ((of_char (CHR ''P'') :: nat) + 32) :: char) = CHR ''p''"
    by code_simp+
  have "char_lower c1 = CHR ''c''" using char_upper_ascii [OF u(1)] by (simp only: e) simp
  moreover have "char_lower c2 = CHR ''k''" using char_upper_ascii [OF u(2)] by (simp only: e) simp
  moreover have "char_lower c3 = CHR ''p''" using char_upper_ascii [OF u(3)] by (simp only: e) simp
  moreover have "char_lower c4 = CHR ''_''" using char_upper_underscore [OF u(4)] by (simp add: char_lower_same)
  ultimately show ?thesis by (simp add: p lower_def)
qed

lemma lower_length: "length (lower s) = length s"
  by (simp add: lower_def)

lemma lower_take: "lower (take n s) = take n (lower s)"
  by (simp add: lower_def take_map)

lemma suffix_starts_with_underscore:
  assumes "lower sfx = ''_database_url''"
  shows "\<exists>rest. sfx = CHR ''_'' # rest"
proof -
  from assms obtain c rest where s: "sfx = c # rest" and c: "char_lower c = CHR ''_''"
    by (cases sfx) (auto simp: lower_def)
  from char_lower_underscore [OF c] s show ?thesis by simp
qed

lemma match_numbered_hit:
  assumes "lower pfx = lower P" "digits \<noteq> []" "decimal digits" "lower sfx = ''_database_url''"
  shows "match_numbered P (pfx @ digits @ sfx) = Some digits"
proof -
  have len: "length pfx = length P" using assms(1) lower_length by metis
  obtain rest where sfx: "sfx = CHR ''_'' # rest"
    using suffix_starts_with_underscore [OF assms(4)] by blast
  have nd: "\<not> ascii_digit (CHR ''_'')" by (simp add: ascii_digit_def)
  have all: "\<And>x. x \<in> set digits \<Longrightarrow> ascii_digit x"
    using assms(3) by (simp add: decimal_def list_all_iff)
  have tw: "takeWhile ascii_digit (digits @ sfx) = digits"
    using all nd by (simp add: sfx takeWhile_append2)
  have dw: "dropWhile ascii_digit (digits @ sfx) = sfx"
    using all nd by (simp add: sfx dropWhile_append2)
  show ?thesis
    unfolding match_numbered_def
    by (simp add: len [symmetric] assms(1) tw dw assms(2,4) Let_def)
qed

lemma match_numbered_miss:
  assumes "lower (take (length P) key) \<noteq> lower P"
  shows "match_numbered P key = None"
  using assms by (simp add: match_numbered_def)

lemma miss_by_prefix:
  assumes "length P \<le> length pfx" "take (length P) (lower pfx) \<noteq> lower P"
  shows "match_numbered P (pfx @ rest) = None"
proof -
  have "lower (take (length P) (pfx @ rest)) = take (length P) (lower pfx)"
    using assms(1) by (simp add: lower_take)
  with assms(2) show ?thesis by (simp add: match_numbered_def)
qed

lemma lower_patterns:
  "lower ''IP'' = ''ip''" "lower ''BANB'' = ''banb''" "lower ''CTM'' = ''ctm''"
  by code_simp+

lemma scan_entry_ip:
  assumes "v \<noteq> []" "lower pfx = ''ip''" "digits \<noteq> []" "decimal digits"
    "lower sfx = ''_database_url''"
  shows "scan_entry urls (pfx @ digits @ sfx, v) = dict_set urls (''ip'' @ digits) v"
proof -
  have "match_numbered ''IP'' (pfx @ digits @ sfx) = Some digits"
    using assms by (intro match_numbered_hit) (simp_all add: lower_patterns)
  then show ?thesis using assms(1,4) by (simp add: scan_entry_def lower_decimal)
qed

lemma scan_entry_banb:
  assumes "v \<noteq> []" "lower pfx = ''banb''" "digits \<noteq> []" "decimal digits"
    "lower sfx = ''_database_url''"
  shows "scan_entry urls (pfx @ digits @ sfx, v) = dict_set urls (''banb'' @ digits) v"
proof -
  have len: "length pfx = 4" using assms(2) lower_length [of pfx] by simp
  have hit: "match_numbered ''BANB'' (pfx @ digits @ sfx) = Some digits"
    using assms by (intro match_numbered_hit) (simp_all add: lower_patterns)
  have miss: "match_numbered ''IP'' (pfx @ digits @ sfx) = None"
    by (rule miss_by_prefix) (simp_all add: len assms(2) lower_patterns)
  show ?thesis using assms(1,4) hit miss by (simp add: scan_entry_def lower_decimal)
qed

lemma scan_entry_ctm:
  assumes "v \<noteq> []" "lower pfx = ''ctm''" "digits \<noteq> []" "decimal digits"
    "lower sfx = ''_database_url''"
  shows "scan_entry urls (pfx @ digits @ sfx, v) = dict_set urls (''ctm'' @ digits) v"
proof -
  have len: "length pfx = 3" using assms(2) lower_length [of pfx] by simp
  obtain d ds where dg: "digits = d # ds" using assms(3) by (cases digits) auto
  have hit: "match_numbered ''CTM'' (pfx @ digits @ sfx) = Some digits"
    using assms by (intro match_numbered_hit) (simp_all add: lower_patterns)
  have miss1: "match_numbered ''IP'' (pfx @ digits @ sfx) = None"
    by (rule miss_by_prefix) (simp_all add: len assms(2) lower_patterns)
  have "match_numbered ''BANB'' ((pfx @ [d]) @ ds @ sfx) = None"
    by (rule miss_by_prefix) (simp_all add: len assms(2) lower_patterns lower_append)
  then have miss2: "match_numbered ''BANB'' (pfx @ digits @ sfx) = None"
    by (simp add: dg)
  show ?thesis using assms(1,4) hit miss1 miss2 by (simp add: scan_entry_def lower_decimal)
qed

lemma scan_entry_empty: "scan_entry urls (key, []) = urls"
  by (simp add: scan_entry_def)

lemma replace_whole:
  assumes "old \<noteq> []"
  shows "replace old new old = new"
proof -
  from assms obtain c cs where o: "old = c # cs" by (cases old) auto
  have "replace old new (c # cs) = new @ replace old new (drop (length old) (c # cs))"
    using assms by (simp add: o)
  then show ?thesis by (simp add: o)
qed

lemma replace_suffix_only:
  assumes "old \<noteq> []" "\<not> occurs old (butlast (s @ old))"
  shows "replace old new (s @ old) = s @ new"
  using assms(2)
proof (induction s)
  case Nil
  show ?case using assms(1) by (simp add: replace_whole)
next
  case (Cons x xs)
  have ne: "xs @ old \<noteq> []" using assms(1) by simp
  have bl: "butlast ((x # xs) @ old) = x # butlast (xs @ old)" using ne by simp
  from Cons.prems have no_here: "take (length old) (x # butlast (xs @ old)) \<noteq> old"
    and no_later: "\<not> occurs old (butlast (xs @ old))"
    unfolding bl by simp_all
  have bl': "butlast (x # xs @ old) = x # butlast (xs @ old)" using ne by simp
  have "take (length old) (butlast (x # xs @ old)) = take (length old) (x # xs @ old)"
    by (rule take_butlast) simp
  then have tb: "take (length old) (x # butlast (xs @ old)) = take (length old) (x # xs @ old)"
    by (simp only: bl')
  have "take (length old) (x # xs @ old) \<noteq> old" using no_here unfolding tb .
  then have "replace old new (x # xs @ old) = x # replace old new (xs @ old)"
    by simp
  with Cons.IH [OF no_later] show ?case by simp
qed

lemma replace_keeps_non_initial:
  assumes "old = o1 # os" "c \<noteq> o1"
  shows "replace old new (c # cs) = c # replace old new cs"
  using assms by auto

lemma upper_pattern: "upper ''_DATABASE_URL'' = ''_DATABASE_URL''"
  by code_simp

lemma scan_entry_ckp:
  assumes "v \<noteq> []" "upper pfx = ''CKP_''"
    "\<not> occurs ''_DATABASE_URL'' (butlast (pfx @ name @ ''_DATABASE_URL''))"
  shows "scan_entry urls (pfx @ name @ ''_DATABASE_URL'', v) = dict_set urls (''ckp_'' @ lower name) v"
proof -
  let ?key = "pfx @ name @ ''_DATABASE_URL''"
  have lp: "lower pfx = ''ckp_''" using assms(2) by (rule upper_CKP)
  have len: "length pfx = 4" using lp lower_length [of pfx] by simp
  have m1: "match_numbered ''IP'' ?key = None"
    by (rule miss_by_prefix) (simp_all add: len lp lower_patterns)
  have m2: "match_numbered ''BANB'' ?key = None"
    by (rule miss_by_prefix) (simp_all add: len lp lower_patterns)
  have m3: "match_numbered ''CTM'' ?key = None"
    by (rule miss_by_prefix) (simp_all add: len lp lower_patterns)
  have st: "startswith (upper ?key) ''CKP_''"
    by (simp add: startswith_def upper_append assms(2))
  have en: "endswith (upper ?key) ''_DATABASE_URL''"
    by (simp add: endswith_def upper_append upper_pattern)
  have "replace ''_DATABASE_URL'' [] ((pfx @ name) @ ''_DATABASE_URL'') = (pfx @ name) @ []"
    using assms(3) by (intro replace_suffix_only) simp_all
  then have rp: "replace ''_DATABASE_URL'' [] ?key = pfx @ name" by simp
  show ?thesis
    using assms(1) m1 m2 m3 st en
    by (simp add: scan_entry_def rp lower_append lp)
qed

lemma fst_set_dict_set: "fst ` set (dict_set d k v) = insert k (fst ` set d)"
proof (induction d)
  case Nil
  show ?case by simp
next
  case (Cons x d)
  obtain k' v' where x: "x = (k', v')" by (cases x)
  show ?case
  proof (cases "k' = k")
    case True
    then show ?thesis by (simp add: x)
  next
    case False
    then show ?thesis using Cons.IH by (simp add: x insert_commute)
  qed
qed

lemma keys_dict_set: "set (dict_keys (dict_set d k v)) = insert k (set (dict_keys d))"
  by (simp add: dict_keys_def fst_set_dict_set)

lemma replace_pattern_skip:
  "c \<noteq> CHR ''_'' \<Longrightarrow>
   replace ''_DATABASE_URL'' new (c # cs) = c # replace ''_DATABASE_URL'' new cs"
  by auto

lemma numbered_alias:
  "scanned_alias (''ip'' @ lower n)" "scanned_alias (''banb'' @ lower n)"
  "scanned_alias (''ctm'' @ lower n)"
proof -
  have l: "lower ''ip'' = ''ip''" "lower ''banb'' = ''banb''" "lower ''ctm'' = ''ctm''"
    by code_simp+
  show "scanned_alias (''ip'' @ lower n)"
    unfolding scanned_alias_def lower_append lower_idem l by (simp add: pattern_alias_def)
  show "scanned_alias (''banb'' @ lower n)"
    unfolding scanned_alias_def lower_append lower_idem l by (simp add: pattern_alias_def)
  show "scanned_alias (''ctm'' @ lower n)"
    unfolding scanned_alias_def lower_append lower_idem l by (simp add: pattern_alias_def)
qed

lemma ckp_head:
  assumes "startswith (upper key) ''CKP_''"
  shows "take 3 (lower (replace ''_DATABASE_URL'' [] key)) = ''ckp''"
proof -
  from assms obtain c1 c2 c3 c4 rest where k: "key = c1 # c2 # c3 # c4 # rest"
    and u: "char_upper c1 = CHR ''C''" "char_upper c2 = CHR ''K''" "char_upper c3 = CHR ''P''"
    by (cases key; cases "tl key"; cases "tl (tl key)"; cases "tl (tl (tl key))")
       (auto simp: startswith_def upper_def)
  have und: "char_upper (CHR ''_'') = CHR ''_''" by code_simp
  have n: "c1 \<noteq> CHR ''_''" "c2 \<noteq> CHR ''_''" "c3 \<noteq> CHR ''_''"
    using u und by auto
  have e: "(char_of ((of_char (CHR ''C'') :: nat) + 32) :: char) = CHR ''c''"
    "(char_of ((of_char (CHR ''K'') :: nat) + 32) :: char) = CHR ''k''"
    "(char_of ((of_char (CHR ''P'') :: nat) + 32) :: char) = CHR ''p''"
    by code_simp+
  have l: "char_lower c1 = CHR ''c''" "char_lower c2 = CHR ''k''" "char_lower c3 = CHR ''p''"
    using char_upper_ascii [OF u(1)] char_upper_ascii [OF u(2)] char_upper_ascii [OF u(3)]
    by (simp_all only: e) simp_all
  have "replace ''_DATABASE_URL'' [] key
          = c1 # c2 # c3 # replace ''_DATABASE_URL'' [] (c4 # rest)"
    unfolding k replace_pattern_skip [OF n(1)] replace_pattern_skip [OF n(2)]
      replace_pattern_skip [OF n(3)] ..
  then show ?thesis by (simp add: lower_def l)
qed

lemma scan_entry_keys:
  assumes "a \<in> set (dict_keys (scan_entry urls kv))"
  shows "a \<in> set (dict_keys urls) \<or> scanned_alias a"
proof -
  obtain key v where kv: "kv = (key, v)" by (cases kv)
  have ip: "scanned_alias (''ip'' @ lower n)" for n by (rule numbered_alias)
  have banb: "scanned_alias (''banb'' @ lower n)" for n by (rule numbered_alias)
  have ctm: "scanned_alias (''ctm'' @ lower n)" for n by (rule numbered_alias)
  have ckp: "scanned_alias (lower (replace ''_DATABASE_URL'' [] key))"
    if "startswith (upper key) ''CKP_''"
    using ckp_head [OF that] by (simp add: scanned_alias_def lower_idem pattern_alias_def)
  from assms show ?thesis
    unfolding kv scan_entry_def
    using ip banb ctm ckp
    by (auto simp: keys_dict_set split: if_splits option.splits)
qed

lemma scan_keys:
  assumes "\<And>a. a \<in> set (dict_keys urls) \<Longrightarrow> scanned_alias a"
    "a \<in> set (dict_keys (foldl scan_entry urls environ))"
  shows "scanned_alias a"
  using assms
proof (induction environ arbitrary: urls)
  case Nil
  then show ?case by simp
next
  case (Cons kv environ)
  have "\<And>b. b \<in> set (dict_keys (scan_entry urls kv)) \<Longrightarrow> scanned_alias b"
    using scan_entry_keys [of _ urls kv] Cons.prems(1) by blast
  from Cons.IH [OF this] Cons.prems(2) show ?case by simp
qed

lemma fixed_not_scanned: "\<not> scanned_alias ''montrg''" "\<not> scanned_alias ''cmms''"
  by (simp_all add: scanned_alias_def pattern_alias_def)

lemma database_urls_fixed_last:
  "Settings_database_urls environ mo cm = foldl scan_entry [] environ @ fixed_entries mo cm"
proof -
  let ?s = "foldl scan_entry [] environ"
  have sc: "\<And>a. a \<in> set (dict_keys ?s) \<Longrightarrow> scanned_alias a"
    by (rule scan_keys [of "[]"]) (simp_all add: dict_keys_def)
  have m: "''montrg'' \<notin> set (dict_keys ?s)" using sc fixed_not_scanned by blast
  have c: "''cmms'' \<notin> set (dict_keys ?s)" using sc fixed_not_scanned by blast
  have c': "''cmms'' \<notin> set (dict_keys (?s @ [(''montrg'', v)]))" for v
    using c by (simp add: dict_keys_def)
  show ?thesis
    by (cases mo; cases cm)
       (simp_all add: Settings_database_urls_def fixed_entries_def Let_def
          dict_set_fresh [OF m] dict_set_fresh [OF c] dict_set_fresh [OF c'])
qed

lemma database_urls_lower:
  assumes "(a, u) \<in> set (Settings_database_urls environ mo cm)"
  shows "lower a = a"
proof -
  have l: "lower ''montrg'' = ''montrg''" "lower ''cmms'' = ''cmms''" by code_simp+
  from assms consider "(a, u) \<in> set (foldl scan_entry [] environ)" | "(a, u) \<in> set (fixed_entries mo cm)"
    unfolding database_urls_fixed_last by auto
  then show ?thesis
  proof cases
    case 1
    then have "a \<in> set (dict_keys (foldl scan_entry [] environ))" by (force simp: dict_keys_def)
    then have "scanned_alias a" by (rule scan_keys [of "[]", rotated]) (simp add: dict_keys_def)
    then show ?thesis by (simp add: scanned_alias_def)
  next
    case 2
    then show ?thesis using l by (auto simp: fixed_entries_def split: option.splits if_splits)
  qed
qed

text \<open>
  C8 (as amended). Every alias of the registry is in lower case. A key that consists of
  \<open>IP\<close>, \<open>BANB\<close> or \<open>CTM\<close> in any case, one or more digits, and \<open>_DATABASE_URL\<close> in any
  case, with a value that is not empty, sets the alias \<open>ip\<close>, \<open>banb\<close> or \<open>ctm\<close> followed by
  the digits. A key that begins with \<open>CKP_\<close> in any case and ends with \<open>_DATABASE_URL\<close> in
  capitals, that text occurring nowhere else in the key, sets the alias \<open>ckp_\<close> followed by
  the name in lower case. An entry whose value is empty changes nothing. The registry is
  the result of the scan of the environment, in its order, followed by the entries of the
  two fixed names that are set and not empty, \<open>montrg\<close> before \<open>cmms\<close>.
\<close>

theorem database_urls_discovery:
  "(\<forall>(a, u) \<in> set (Settings_database_urls environ mo cm). lower a = a)
   \<and> (v \<noteq> [] \<and> digits \<noteq> [] \<and> decimal digits \<and> lower sfx = ''_database_url'' \<longrightarrow>
        (lower pfx = ''ip'' \<longrightarrow>
           scan_entry urls (pfx @ digits @ sfx, v) = dict_set urls (''ip'' @ digits) v)
        \<and> (lower pfx = ''banb'' \<longrightarrow>
           scan_entry urls (pfx @ digits @ sfx, v) = dict_set urls (''banb'' @ digits) v)
        \<and> (lower pfx = ''ctm'' \<longrightarrow>
           scan_entry urls (pfx @ digits @ sfx, v) = dict_set urls (''ctm'' @ digits) v))
   \<and> (v \<noteq> [] \<and> upper pfx = ''CKP_''
        \<and> \<not> occurs ''_DATABASE_URL'' (butlast (pfx @ name @ ''_DATABASE_URL'')) \<longrightarrow>
        scan_entry urls (pfx @ name @ ''_DATABASE_URL'', v)
          = dict_set urls (''ckp_'' @ lower name) v)
   \<and> scan_entry urls (key, []) = urls
   \<and> Settings_database_urls environ mo cm = foldl scan_entry [] environ @ fixed_entries mo cm"
proof (intro conjI impI)
  show "\<forall>(a, u) \<in> set (Settings_database_urls environ mo cm). lower a = a"
    using database_urls_lower by blast
next
  assume "v \<noteq> [] \<and> digits \<noteq> [] \<and> decimal digits \<and> lower sfx = ''_database_url''"
    and "lower pfx = ''ip''"
  then show "scan_entry urls (pfx @ digits @ sfx, v) = dict_set urls (''ip'' @ digits) v"
    by (simp add: scan_entry_ip)
next
  assume "v \<noteq> [] \<and> digits \<noteq> [] \<and> decimal digits \<and> lower sfx = ''_database_url''"
    and "lower pfx = ''banb''"
  then show "scan_entry urls (pfx @ digits @ sfx, v) = dict_set urls (''banb'' @ digits) v"
    by (simp add: scan_entry_banb)
next
  assume "v \<noteq> [] \<and> digits \<noteq> [] \<and> decimal digits \<and> lower sfx = ''_database_url''"
    and "lower pfx = ''ctm''"
  then show "scan_entry urls (pfx @ digits @ sfx, v) = dict_set urls (''ctm'' @ digits) v"
    by (simp add: scan_entry_ctm)
next
  assume "v \<noteq> [] \<and> upper pfx = ''CKP_''
        \<and> \<not> occurs ''_DATABASE_URL'' (butlast (pfx @ name @ ''_DATABASE_URL''))"
  then show "scan_entry urls (pfx @ name @ ''_DATABASE_URL'', v)
          = dict_set urls (''ckp_'' @ lower name) v"
    by (simp add: scan_entry_ckp)
next
  show "scan_entry urls (key, []) = urls" by (rule scan_entry_empty)
next
  show "Settings_database_urls environ mo cm = foldl scan_entry [] environ @ fixed_entries mo cm"
    by (rule database_urls_fixed_last)
qed

text \<open>An environment with keys of the four patterns in mixed case, a key of no pattern,
  an entry with an empty value, and both fixed names: the aliases come out in lower case,
  in the order of the environment, \<open>montrg\<close> and \<open>cmms\<close> last.\<close>

theorem database_urls_discovery_witness:
  "Settings_database_urls
     [(''IP04_DATABASE_URL'', ''mysql://a''), (''PATH'', ''/usr/bin''),
      (''ckp_Chiller_DATABASE_URL'', ''postgresql://b''), (''Banb02_database_url'', ''mysql://c''),
      (''CTM01_DATABASE_URL'', ''mysql://d''), (''IP99_DATABASE_URL'', '''')]
     (Some ''postgresql://m'') (Some ''oracle+oracledb://o'')
   = [(''ip04'', ''mysql://a''), (''ckp_chiller'', ''postgresql://b''), (''banb02'', ''mysql://c''),
      (''ctm01'', ''mysql://d''), (''montrg'', ''postgresql://m''),
      (''cmms'', ''oracle+oracledb://o'')]"
proof -
  let ?env = "[(''IP04_DATABASE_URL'', ''mysql://a''), (''PATH'', ''/usr/bin''),
      (''ckp_Chiller_DATABASE_URL'', ''postgresql://b''), (''Banb02_database_url'', ''mysql://c''),
      (''CTM01_DATABASE_URL'', ''mysql://d''), (''IP99_DATABASE_URL'', '''')]"
  note d = database_urls_discovery
  have h: "''mysql://a'' \<noteq> [] \<and> ''04'' \<noteq> [] \<and> decimal ''04''
      \<and> lower ''_DATABASE_URL'' = ''_database_url''" by code_simp
  have hb: "''mysql://c'' \<noteq> [] \<and> ''02'' \<noteq> [] \<and> decimal ''02''
      \<and> lower ''_database_url'' = ''_database_url''" by code_simp
  have hc: "''mysql://d'' \<noteq> [] \<and> ''01'' \<noteq> [] \<and> decimal ''01''
      \<and> lower ''_DATABASE_URL'' = ''_database_url''" by code_simp
  have hk: "''postgresql://b'' \<noteq> [] \<and> upper ''ckp_'' = ''CKP_''
      \<and> \<not> occurs ''_DATABASE_URL'' (butlast (''ckp_'' @ ''Chiller'' @ ''_DATABASE_URL''))"
    by code_simp
  have l: "lower ''IP'' = ''ip''" "lower ''Banb'' = ''banb''" "lower ''CTM'' = ''ctm''"
    "lower ''Chiller'' = ''chiller''"
    by code_simp+
  have e1: "scan_entry [] (''IP04_DATABASE_URL'', ''mysql://a'') = [(''ip04'', ''mysql://a'')]"
    using d [of _ _ _ "''mysql://a''" "''04''" "''_DATABASE_URL''" "''IP''" "[]"] h l by simp
  have e2: "scan_entry [(''ip04'', ''mysql://a'')] (''PATH'', ''/usr/bin'') = [(''ip04'', ''mysql://a'')]"
    by code_simp
  have e3: "scan_entry [(''ip04'', ''mysql://a'')] (''ckp_Chiller_DATABASE_URL'', ''postgresql://b'')
      = [(''ip04'', ''mysql://a''), (''ckp_chiller'', ''postgresql://b'')]"
    using d [of _ _ _ "''postgresql://b''" _ _ "''ckp_''" "[(''ip04'', ''mysql://a'')]" "''Chiller''"]
      hk l by simp
  have e4: "scan_entry [(''ip04'', ''mysql://a''), (''ckp_chiller'', ''postgresql://b'')]
        (''Banb02_database_url'', ''mysql://c'')
      = [(''ip04'', ''mysql://a''), (''ckp_chiller'', ''postgresql://b''), (''banb02'', ''mysql://c'')]"
    using d [of _ _ _ "''mysql://c''" "''02''" "''_database_url''" "''Banb''"
        "[(''ip04'', ''mysql://a''), (''ckp_chiller'', ''postgresql://b'')]"] hb l by simp
  have e5: "scan_entry [(''ip04'', ''mysql://a''), (''ckp_chiller'', ''postgresql://b''),
          (''banb02'', ''mysql://c'')] (''CTM01_DATABASE_URL'', ''mysql://d'')
      = [(''ip04'', ''mysql://a''), (''ckp_chiller'', ''postgresql://b''), (''banb02'', ''mysql://c''),
         (''ctm01'', ''mysql://d'')]"
    using d [of _ _ _ "''mysql://d''" "''01''" "''_DATABASE_URL''" "''CTM''"
        "[(''ip04'', ''mysql://a''), (''ckp_chiller'', ''postgresql://b''), (''banb02'', ''mysql://c'')]"]
      hc l by simp
  have e6: "scan_entry [(''ip04'', ''mysql://a''), (''ckp_chiller'', ''postgresql://b''),
          (''banb02'', ''mysql://c''), (''ctm01'', ''mysql://d'')] (''IP99_DATABASE_URL'', [])
      = [(''ip04'', ''mysql://a''), (''ckp_chiller'', ''postgresql://b''), (''banb02'', ''mysql://c''),
         (''ctm01'', ''mysql://d'')]"
    using d by blast
  have f: "fixed_entries (Some ''postgresql://m'') (Some ''oracle+oracledb://o'')
      = [(''montrg'', ''postgresql://m''), (''cmms'', ''oracle+oracledb://o'')]"
    by (simp add: fixed_entries_def)
  have "Settings_database_urls ?env (Some ''postgresql://m'') (Some ''oracle+oracledb://o'')
      = foldl scan_entry [] ?env
        @ fixed_entries (Some ''postgresql://m'') (Some ''oracle+oracledb://o'')"
    using d by blast
  then show ?thesis by (simp add: e1 e2 e3 e4 e5 e6 f)
qed

text \<open>
  C8 as stated fails at blank values: a value of one space is not empty, so its entry is
  not skipped and the alias is registered with the blank URL.
\<close>

theorem database_urls_blank_value_counterexample:
  "Settings_database_urls [(''IP04_DATABASE_URL'', '' '')] None None = [(''ip04'', '' '')]"
  by code_simp

end
